theory Spec2Isabelle
  imports Main "HOL-Library.Char_ord" "HOL-Library.List_Lexorder" "HOL-Library.Sublist"
begin

section \<open>Data model of \<open>pyjac/kernel_utils/kernel_gen.py\<close>\<close>

text \<open>
  The generator works on loopy objects. Only the attributes that
  \<open>kernel_gen.py\<close> reads are kept: a kernel argument has a class
  (\<open>lp.ValueArg\<close>, or an array argument with its address space;
  \<open>lp.GlobalArg\<close> is the array argument in the global address space), a name,
  a dtype and a shape (a value argument has none: its shape field is not read);
  a temporary variable has a name, a dtype, a shape, a
  scope and the \<open>read_only\<close> flag. Python's \<open>==\<close> on these objects is
  structural, as is HOL's equality on the datatypes below.
\<close>

datatype numpy_dtype = Float32 | Float64 | Int32 | Int64

text \<open>\<open>loopy.types\<close>: a \<open>NumpyType\<close> or its \<open>AtomicNumpyType\<close> variant.\<close>

datatype loopy_type = NumpyType numpy_dtype | AtomicNumpyType numpy_dtype

fun base_dtype :: "loopy_type \<Rightarrow> numpy_dtype" where
  "base_dtype (NumpyType d) = d"
| "base_dtype (AtomicNumpyType d) = d"

text \<open>\<open>isinstance(x.dtype, AtomicNumpyType)\<close>\<close>

fun is_atomic :: "loopy_type \<Rightarrow> bool" where
  "is_atomic (NumpyType d) = False"
| "is_atomic (AtomicNumpyType d) = True"

text \<open>\<open>to_loopy_type(dtype, for_atomic=True, target=...)\<close>\<close>

definition to_atomic :: "loopy_type \<Rightarrow> loopy_type" where
  "to_atomic t = AtomicNumpyType (base_dtype t)"

text \<open>\<open>dtype.is_integral()\<close>\<close>

fun is_integral :: "loopy_type \<Rightarrow> bool" where
  "is_integral t = (base_dtype t = Int32 \<or> base_dtype t = Int64)"

text \<open>
  A shape entry is a Python \<open>int\<close> or a symbolic size (the work size or the
  problem size), which prints as its name.
\<close>

datatype dim = IntDim int | SymDim string

text \<open>\<open>loopy.kernel.data.AddressSpace\<close> together with \<open>lp.auto\<close>.\<close>

datatype address_space = PRIVATE | LOCAL | GLOBAL | AUTO

datatype arg_class = ValueArg | ArrayArg address_space

datatype kernel_argument =
  KernelArgument (arg_class: arg_class) (arg_name: string)
    (arg_dtype: loopy_type) (arg_shape: "dim list")

text \<open>\<open>lp.GlobalArg(name, dtype=..., shape=...)\<close>\<close>

definition GlobalArg :: "string \<Rightarrow> loopy_type \<Rightarrow> dim list \<Rightarrow> kernel_argument" where
  "GlobalArg n d s = KernelArgument (ArrayArg GLOBAL) n d s"

text \<open>\<open>isinstance(x, lp.ValueArg)\<close>\<close>

definition is_ValueArg :: "kernel_argument \<Rightarrow> bool" where
  "is_ValueArg a = (arg_class a = ValueArg)"

text \<open>
  A temporary is allocated by the generated code, so its shape is a tuple of
  integers.
\<close>

datatype temporary_variable =
  TemporaryVariable (tv_name: string) (tv_dtype: loopy_type)
    (tv_shape: "int list") (tv_scope: address_space) (tv_read_only: bool)

text \<open>
  A \<open>loopy.LoopKernel\<close>: its name, its argument list, the dictionary of its
  temporaries in iteration order, and the names its instructions write
  (\<open>get_written_variables()\<close>).
\<close>

record loop_kernel =
  knl_name :: string
  knl_args :: "kernel_argument list"
  temporary_variables :: "(string \<times> temporary_variable) list"
  written_variables :: "string list"

text \<open>An entry of \<open>extra_kernel_data\<close> is an argument or a temporary.\<close>

datatype kernel_data = ArgData kernel_argument | TempData temporary_variable

text \<open>
  Every \<open>raise\<close>, failed \<open>assert\<close> and failing built-in operation of the source
  is a value. \<open>CannotResolveArgs\<close> and \<open>CannotResolveTemps\<close> are the
  \<open>Exception('Cannot resolve different arguements of same name: ...')\<close> of
  \<open>_process_args\<close>, carrying the variants whose \<open>str\<close> the message joins.
  \<open>CannotFit name\<close> is the bare \<open>Exception()\<close> of \<open>_process_memory\<close>, raised
  after \<open>logger.exception('Cannot fit kernel {name} in memory')\<close>.
\<close>

datatype py_error =
    AssertionError
  | IndexError
  | KeyError
  | StopIteration
  | TypeError
  | AttributeError
  | ValueError
  | CannotResolveArgs "kernel_argument list"
  | CannotResolveTemps "temporary_variable list"
  | CannotFit string

text \<open>
  \<open>xs[i]\<close> on a list: positions \<open>0 .. len - 1\<close> are read directly, positions
  \<open>-len .. -1\<close> from the end, and every other index is an \<open>IndexError\<close>.
\<close>

definition py_getitem :: "'a list \<Rightarrow> int \<Rightarrow> py_error + 'a" where
  "py_getitem xs i =
     (if 0 \<le> i \<and> i < int (length xs) then Inr (xs ! nat i)
      else if i < 0 \<and> - i \<le> int (length xs) then Inr (xs ! nat (int (length xs) + i))
      else Inl IndexError)"

text \<open>\<open>next(x for x in xs if P(x), None)\<close>\<close>

fun py_next :: "('a \<Rightarrow> bool) \<Rightarrow> 'a list \<Rightarrow> 'a option" where
  "py_next P [] = None"
| "py_next P (x # xs) = (if P x then Some x else py_next P xs)"

text \<open>
  Modelled from the spec: \<open>utils.partition(tosplit, predicate)\<close> is defined in
  \<open>pyjac/utils.py\<close>, which is not among the sources. The specification
  describes each of its three calls as a split of the sequence into the
  elements that satisfy the predicate (returned first) and the others, and the
  names the results are bound to (\<open>valueargs, args\<close>; \<open>constants, temps\<close>;
  \<open>isizes, ssizes\<close>) agree; both parts keep the original order.
\<close>

definition utils_partition :: "'a list \<Rightarrow> ('a \<Rightarrow> bool) \<Rightarrow> 'a list \<times> 'a list" where
  "utils_partition tosplit predicate =
     (filter predicate tosplit, filter (\<lambda>x. \<not> predicate x) tosplit)"

section \<open>\<open>opencl_kernel_generator.apply_barriers\<close>\<close>

text \<open>
  \<open>list(enumerate(instructions))\<close>: every instruction paired with its index.
\<close>

definition enumerate_insns :: "string list \<Rightarrow> (int \<times> string) list" where
  "enumerate_insns instructions = zip (map int [0..<length instructions]) instructions"

definition barrier_templates :: "string \<rightharpoonup> string" where
  "barrier_templates =
     [''global'' \<mapsto> ''barrier(CLK_GLOBAL_MEM_FENCE)'',
      ''local'' \<mapsto> ''barrier(CLK_LOCAL_MEM_FENCE)'']"

text \<open>
  \<open>next(ind for ind, inst in enumerate(instructions) if inst[0] == b)\<close>: the
  first position whose tag is \<open>b\<close>; \<open>None\<close> stands for the \<open>StopIteration\<close>
  of the exhausted generator.
\<close>

fun find_insn :: "int \<Rightarrow> (int \<times> string) list \<Rightarrow> nat option" where
  "find_insn b [] = None"
| "find_insn b (inst # rest) =
     (if fst inst = b then Some 0 else map_option Suc (find_insn b rest))"

text \<open>
  One iteration of the loop over the barriers. \<open>line_end\<close> is
  \<open>utils.line_end[self.lang]\<close>. The assertion reads
  \<open>instructions[index - 1]\<close>, which for \<open>index = 0\<close> is the last element.
\<close>

definition insert_barrier ::
  "string \<Rightarrow> int \<times> int \<times> string \<Rightarrow> (int \<times> string) list \<Rightarrow> py_error + (int \<times> string) list"
where
  "insert_barrier line_end barrier instructions =
     (case find_insn (fst (snd barrier)) instructions of
        None \<Rightarrow> Inl StopIteration
      | Some index \<Rightarrow>
          (case py_getitem instructions (int index - 1) of
             Inl e \<Rightarrow> Inl e
           | Inr prev \<Rightarrow>
               if fst barrier \<noteq> fst prev then Inl AssertionError
               else (case barrier_templates (snd (snd barrier)) of
                       None \<Rightarrow> Inl KeyError
                     | Some template \<Rightarrow>
                         Inr (take index instructions @ [(- 1, template @ line_end)]
                                @ drop index instructions))))"

fun insert_barriers ::
  "string \<Rightarrow> (int \<times> int \<times> string) list \<Rightarrow> (int \<times> string) list \<Rightarrow> py_error + (int \<times> string) list"
where
  "insert_barriers line_end [] instructions = Inr instructions"
| "insert_barriers line_end (barrier # barriers) instructions =
     (case insert_barrier line_end barrier instructions of
        Inl e \<Rightarrow> Inl e
      | Inr instructions' \<Rightarrow> insert_barriers line_end barriers instructions')"

definition apply_barriers ::
  "string \<Rightarrow> (int \<times> int \<times> string) list \<Rightarrow> string list \<Rightarrow> py_error + string list"
where
  "apply_barriers line_end barriers instructions =
     (case insert_barriers line_end barriers (enumerate_insns instructions) of
        Inl e \<Rightarrow> Inl e
      | Inr tagged \<Rightarrow> Inr (map snd tagged))"

section \<open>\<open>kernel_generator.apply_specialization\<close>\<close>

record loopy_options =
  depth :: "int option"
  width :: "int option"
  is_simd :: bool
  lang :: string
  unr :: "int option"
  ilp :: bool
  work_size :: "int option"

text \<open>
  The loopy transformations are an external library; the model takes them as
  parameters over an arbitrary kernel type. \<open>vecwith_fix knl w\<close> stands for
  \<open>knl.copy(overridden_get_grid_sizes_for_insn_ids=vecwith_fixer(knl.copy(), w))\<close>.
\<close>

record 'k loopy =
  split_iname :: "'k \<Rightarrow> string \<Rightarrow> int \<Rightarrow> string \<Rightarrow> 'k"
  tag_inames :: "'k \<Rightarrow> (string \<times> string) list \<Rightarrow> 'k"
  vecwith_fix :: "'k \<Rightarrow> int \<Rightarrow> 'k"

text \<open>
  The function returns the transformed kernel, or the dictionary
  \<open>specialization\<close> when \<open>get_specialization\<close> is set.
\<close>

datatype 'k specialized = Knl 'k | Specialization "string \<rightharpoonup> string"

text \<open>
  \<open>if v:\<close> on an optional integer holds when \<open>v\<close> is neither \<open>None\<close> nor
  \<open>0\<close>; \<open>nonzero\<close> returns the value in that case.
\<close>

fun nonzero :: "int option \<Rightarrow> int option" where
  "nonzero None = None"
| "nonzero (Some n) = (if n = 0 then None else Some n)"

text \<open>
  The first block of the function: \<open>(to_split, vec_width, i_tag, j_tag)\<close>.
  \<open>global_ind\<close> is the constant imported from \<open>pyjac.core.array_creator\<close>.
\<close>

definition split_choice ::
  "string \<Rightarrow> loopy_options \<Rightarrow> string \<Rightarrow> (string \<times> int) option \<times> string \<times> string"
where
  "split_choice global_ind loopy_opts inner_ind =
     (case nonzero (depth loopy_opts) of
        Some d \<Rightarrow> (Some (inner_ind, d), inner_ind @ ''_outer'', global_ind)
      | None \<Rightarrow>
          (case nonzero (width loopy_opts) of
             Some w \<Rightarrow> (Some (global_ind, w), inner_ind, global_ind @ ''_outer'')
           | None \<Rightarrow> (None, inner_ind, global_ind)))"

text \<open>\<open>if to_split and can_vectorize:\<close> (an empty iname is false in Python).\<close>

definition vector_split ::
  "'k loopy \<Rightarrow> loopy_options \<Rightarrow> bool \<Rightarrow> bool \<Rightarrow> bool \<Rightarrow> (string \<times> int) option
     \<Rightarrow> 'k \<times> (string \<rightharpoonup> string) \<Rightarrow> 'k \<times> (string \<rightharpoonup> string)"
where
  "vector_split lp loopy_opts for_testing can_vectorize get_specialization split st =
     (case split of
        None \<Rightarrow> st
      | Some (to_split, vec_width) \<Rightarrow>
          if to_split \<noteq> [] \<and> can_vectorize then
            (let tag = (if is_simd loopy_opts then ''vec'' else ''l.0'') in
             if get_specialization then (fst st, (snd st)(to_split @ ''_inner'' \<mapsto> tag))
             else if nonzero (width loopy_opts) \<noteq> None \<and> \<not> for_testing
               then (tag_inames lp (fst st) [(to_split @ ''_inner'', tag)], snd st)
             else (split_iname lp (fst st) to_split vec_width tag, snd st))
          else st)"

text \<open>\<open>if utils.can_vectorize_lang[loopy_opts.lang]:\<close>, after the dictionary lookup.\<close>

definition global_tag ::
  "'k loopy \<Rightarrow> bool \<Rightarrow> bool \<Rightarrow> string
     \<Rightarrow> 'k \<times> (string \<rightharpoonup> string) \<Rightarrow> 'k \<times> (string \<rightharpoonup> string)"
where
  "global_tag lp can_vec_lang get_specialization j_tag st =
     (if can_vec_lang then
        (if get_specialization then (fst st, (snd st)(j_tag \<mapsto> ''g.0''))
         else (tag_inames lp (fst st) [(j_tag, ''g.0'')], snd st))
      else st)"

text \<open>\<open>if vecspec and not get_specialization: knl = vecspec(knl)\<close>\<close>

definition run_vecspec ::
  "('k \<Rightarrow> 'k) option \<Rightarrow> bool \<Rightarrow> 'k \<times> (string \<rightharpoonup> string) \<Rightarrow> 'k \<times> (string \<rightharpoonup> string)"
where
  "run_vecspec vecspec get_specialization st =
     (case vecspec of
        Some f \<Rightarrow> if \<not> get_specialization then (f (fst st), snd st) else st
      | None \<Rightarrow> st)"

text \<open>\<open>if bool(vec_width) and not loopy_opts.is_simd and not get_specialization:\<close>\<close>

definition width_fix ::
  "'k loopy \<Rightarrow> loopy_options \<Rightarrow> bool \<Rightarrow> (string \<times> int) option
     \<Rightarrow> 'k \<times> (string \<rightharpoonup> string) \<Rightarrow> 'k \<times> (string \<rightharpoonup> string)"
where
  "width_fix lp loopy_opts get_specialization split st =
     (case split of
        Some (to_split, vec_width) \<Rightarrow>
          if \<not> is_simd loopy_opts \<and> \<not> get_specialization
          then (vecwith_fix lp (fst st) vec_width, snd st) else st
      | None \<Rightarrow> st)"

text \<open>The unroll / ILP block.\<close>

definition unr_ilp ::
  "'k loopy \<Rightarrow> loopy_options \<Rightarrow> bool \<Rightarrow> string
     \<Rightarrow> 'k \<times> (string \<rightharpoonup> string) \<Rightarrow> 'k \<times> (string \<rightharpoonup> string)"
where
  "unr_ilp lp loopy_opts get_specialization i_tag st =
     (case unr loopy_opts of
        Some u \<Rightarrow>
          if get_specialization then (fst st, (snd st)(i_tag @ ''_inner'' \<mapsto> ''unr''))
          else (split_iname lp (fst st) i_tag u ''unr'', snd st)
      | None \<Rightarrow>
          if ilp loopy_opts then
            (if get_specialization then (fst st, (snd st)(i_tag \<mapsto> ''ilp''))
             else (tag_inames lp (fst st) [(i_tag, ''ilp'')], snd st))
          else st)"

text \<open>
  \<open>can_vectorize_lang\<close> is the dictionary \<open>utils.can_vectorize_lang\<close>; a
  language it does not hold is a \<open>KeyError\<close>.
\<close>

definition apply_specialization ::
  "'k loopy \<Rightarrow> (string \<rightharpoonup> bool) \<Rightarrow> string \<Rightarrow> loopy_options \<Rightarrow> string \<Rightarrow> 'k \<Rightarrow> bool
     \<Rightarrow> ('k \<Rightarrow> 'k) option \<Rightarrow> bool \<Rightarrow> bool \<Rightarrow> py_error + 'k specialized"
where
  "apply_specialization lp can_vectorize_lang global_ind loopy_opts inner_ind knl for_testing
       vecspec can_vectorize get_specialization =
     (case split_choice global_ind loopy_opts inner_ind of
        (split, i_tag, j_tag) \<Rightarrow>
          if \<not> can_vectorize \<and> vecspec = None then Inl AssertionError
          else
            (let st1 = vector_split lp loopy_opts for_testing can_vectorize get_specialization
                         split (knl, Map.empty)
             in case can_vectorize_lang (lang loopy_opts) of
                  None \<Rightarrow> Inl KeyError
                | Some can_vec_lang \<Rightarrow>
                    (let st2 = global_tag lp can_vec_lang get_specialization j_tag st1;
                         st3 = run_vecspec vecspec get_specialization st2;
                         st4 = width_fix lp loopy_opts get_specialization split st3;
                         st5 = unr_ilp lp loopy_opts get_specialization i_tag st4
                     in Inr (if \<not> get_specialization then Knl (fst st5)
                             else Specialization (snd st5)))))"

section \<open>\<open>kernel_generator._get_working_buffer\<close>\<close>

text \<open>Python's \<open>str\<close> of an integer.\<close>

definition digit_char :: "nat \<Rightarrow> char" where
  "digit_char d = char_of (48 + d)"

fun str_nat :: "nat \<Rightarrow> string" where
  "str_nat n = (if n < 10 then [digit_char n] else str_nat (n div 10) @ [digit_char (n mod 10)])"

declare str_nat.simps [simp del]

definition str_int :: "int \<Rightarrow> string" where
  "str_int i = (if i < 0 then CHR ''-'' # str_nat (nat (- i)) else str_nat (nat i))"

text \<open>
  \<open>np.prod\<close> of a sequence of Python integers. NumPy first stores the
  sequence in an array. When every entry lies in the range of a 64-bit signed
  integer the array has that element type (\<open>int64\<close>, the default integer
  where a C \<open>long\<close> has 64 bits), the product is taken in it with wrap-around,
  and the result is the product reduced to the range \<open>-2^63 .. 2^63 - 1\<close>;
  the empty product is 1. With an entry outside this range NumPy chooses
  another element type (unsigned, Python objects or floating point, depending
  on the entries and on the release). That part of NumPy is left open, as the
  parameter \<open>prod_wide\<close>: \<open>prod_wide np xs\<close> is \<open>int(np.prod(xs))\<close> for such a
  sequence \<open>xs\<close>. (The second parameter, \<open>sorted_wide\<close>, is the order of the
  promotion candidates in that case, see \<open>gtemps_of\<close>.)
\<close>

definition in_int64 :: "int \<Rightarrow> bool" where
  "in_int64 d = (- (2 ^ 63) \<le> d \<and> d < 2 ^ 63)"

definition wrap_int64 :: "int \<Rightarrow> int" where
  "wrap_int64 i = (i + 2 ^ 63) mod 2 ^ 64 - 2 ^ 63"

record numpy =
  prod_wide :: "int list \<Rightarrow> int"
  sorted_wide :: "temporary_variable list \<Rightarrow> temporary_variable list"

definition np_prod :: "numpy \<Rightarrow> int list \<Rightarrow> int" where
  "np_prod np xs = (if list_all in_int64 xs then wrap_int64 (prod_list xs) else prod_wide np xs)"

text \<open>The integer entries of a shape, and the others.\<close>

fun int_dims :: "dim list \<Rightarrow> int list" where
  "int_dims [] = []"
| "int_dims (IntDim n # ds) = n # int_dims ds"
| "int_dims (SymDim s # ds) = int_dims ds"

fun sym_dims :: "dim list \<Rightarrow> string list" where
  "sym_dims [] = []"
| "sym_dims (IntDim n # ds) = sym_dims ds"
| "sym_dims (SymDim s # ds) = s # sym_dims ds"

text \<open>
  The property \<open>work_size\<close>: the integer of the options when the user gave
  one, otherwise the name of the work-size variable \<open>w_size.name\<close>.
  \<open>format_offset\<close> is \<open>'{} * {}'.format(size_per_work_item, work_size)\<close>.
\<close>

definition work_size_str :: "string \<Rightarrow> loopy_options \<Rightarrow> string" where
  "work_size_str w_size_name loopy_opts =
     (case work_size loopy_opts of Some n \<Rightarrow> str_int n | None \<Rightarrow> w_size_name)"

definition format_offset :: "int \<Rightarrow> string \<Rightarrow> string" where
  "format_offset size_per_work_item ws = str_int size_per_work_item @ '' * '' @ ws"

text \<open>
  The check at the end of the loop body,
  \<open>assert len(ssizes) <= 1 and str(ssizes[0]) == w_size.name\<close>: with no
  symbolic entry \<open>ssizes[0]\<close> is an \<open>IndexError\<close>.
\<close>

definition check_work_size :: "string \<Rightarrow> string list \<Rightarrow> py_error option" where
  "check_work_size w_size_name ssizes =
     (if \<not> length ssizes \<le> 1 then Some AssertionError
      else (case ssizes of
              [] \<Rightarrow> Some IndexError
            | s # rest \<Rightarrow> if s = w_size_name then None else Some AssertionError))"

text \<open>
  The loop, with the running \<open>size_per_work_item\<close> and \<open>offsets\<close>. A
  \<open>lp.ValueArg\<close> has no attribute \<open>shape\<close>.
\<close>

fun working_buffer_loop ::
  "numpy \<Rightarrow> string \<Rightarrow> loopy_options \<Rightarrow> kernel_argument list \<Rightarrow> int \<Rightarrow> (string \<rightharpoonup> string)
     \<Rightarrow> py_error + int \<times> (string \<rightharpoonup> string)"
where
  "working_buffer_loop np w_size_name loopy_opts [] size_per_work_item offsets =
     Inr (size_per_work_item, offsets)"
| "working_buffer_loop np w_size_name loopy_opts (arg # args) size_per_work_item offsets =
     (if is_integral (arg_dtype arg) then Inl AssertionError
      else if is_ValueArg arg then Inl AttributeError
      else
        (let isizes = int_dims (arg_shape arg);
             ssizes = sym_dims (arg_shape arg);
             offsets' = offsets(arg_name arg \<mapsto>
                          format_offset size_per_work_item (work_size_str w_size_name loopy_opts));
             size' = size_per_work_item + np_prod np isizes
         in if work_size loopy_opts = None
            then (case check_work_size w_size_name ssizes of
                    Some e \<Rightarrow> Inl e
                  | None \<Rightarrow> working_buffer_loop np w_size_name loopy_opts args size' offsets')
            else working_buffer_loop np w_size_name loopy_opts args size' offsets'))"

definition get_working_buffer ::
  "numpy \<Rightarrow> string \<Rightarrow> loopy_options \<Rightarrow> kernel_argument list \<Rightarrow> py_error + int \<times> (string \<rightharpoonup> string)"
where
  "get_working_buffer np w_size_name loopy_opts args =
     working_buffer_loop np w_size_name loopy_opts args 0 Map.empty"

section \<open>\<open>kernel_generator._process_memory\<close>\<close>

text \<open>
  \<open>mem_types\<close>: the arrays of each memory class. The global class holds the
  array arguments and, after a promotion, the promoted temporaries.
\<close>

record mem_types =
  m_global :: "kernel_data list"
  m_local :: "temporary_variable list"
  m_constant :: "temporary_variable list"

text \<open>
  \<open>memory_limits\<close> lives in \<open>pyjac/kernel_utils/memory_manager.py\<close>; the model
  takes its \<open>can_fit\<close> as a parameter: \<open>can_fit mt tc\<close> is the sequence that
  \<open>all(...)\<close> tests, for the limits object built by \<open>get_limits\<close> from \<open>mt\<close>
  and the list \<open>tc\<close> that \<open>with_type_changes\<close> holds under the global class
  (the only key the caller fills; the call without argument passes none).
\<close>

type_synonym can_fit = "mem_types \<Rightarrow> temporary_variable list \<Rightarrow> bool list"

text \<open>\<open>all(xs)\<close>\<close>

definition py_all :: "bool list \<Rightarrow> bool" where
  "py_all xs = list_all (\<lambda>b. b) xs"

text \<open>
  \<open>gtemps\<close>: the constants whose name does not contain \<open>'sparse_jac'\<close>,
  \<open>sorted(gtemps, key=lambda x: np.prod(x.shape), reverse=True)\<close>. Python's
  sort keeps the original order of equal keys also with \<open>reverse=True\<close>. When
  the shape of a candidate has an entry outside the 64-bit range, the keys are
  NumPy scalars of other types, and the list that \<open>sorted\<close> builds from their
  comparisons is left open, as the parameter \<open>sorted_wide\<close>.
\<close>

definition gtemps_of ::
  "numpy \<Rightarrow> temporary_variable list \<Rightarrow> temporary_variable list" where
  "gtemps_of np constants =
     (let gtemps = filter (\<lambda>x. \<not> sublist ''sparse_jac'' (tv_name x)) constants
      in if list_all (\<lambda>x. list_all in_int64 (tv_shape x)) gtemps
         then sort_key (\<lambda>x. - np_prod np (tv_shape x)) gtemps
         else sorted_wide np gtemps)"

text \<open>
  The \<open>while\<close> loop: \<open>type_changes\<close> is the list under the global class,
  \<open>gtemps\<close> the candidates left.
\<close>

fun promote_while ::
  "string \<Rightarrow> can_fit \<Rightarrow> mem_types \<Rightarrow> temporary_variable list \<Rightarrow> temporary_variable list
     \<Rightarrow> py_error + temporary_variable list"
where
  "promote_while name can_fit mt type_changes [] =
     (if py_all (can_fit mt type_changes) then Inr type_changes else Inl (CannotFit name))"
| "promote_while name can_fit mt type_changes (g # gtemps) =
     (if py_all (can_fit mt type_changes) then Inr type_changes
      else promote_while name can_fit mt (type_changes @ [g]) gtemps)"

text \<open>
  The greedy promotion, from the filter to the end of the \<open>while\<close> loop.
  \<open>gtemps[0]\<close> is read before the loop tests whether a candidate is left.
\<close>

definition greedy_promotion ::
  "numpy \<Rightarrow> string \<Rightarrow> can_fit \<Rightarrow> mem_types \<Rightarrow> temporary_variable list
     \<Rightarrow> py_error + temporary_variable list"
where
  "greedy_promotion np name can_fit mt constants =
     (case gtemps_of np constants of
        [] \<Rightarrow> Inl IndexError
      | g # gtemps \<Rightarrow> promote_while name can_fit mt [g] gtemps)"

text \<open>
  \<open>readonly\<close> is the set of names that \<open>_process_args\<close> returns. A Python set
  has no \<open>__getitem__\<close>, so \<open>readonly[-1]\<close> is a \<open>TypeError\<close>; and a \<open>str\<close> has
  no attribute \<open>name\<close>.
\<close>

definition set_getitem :: "'a set \<Rightarrow> int \<Rightarrow> py_error + 'a" where
  "set_getitem s i = Inl TypeError"

definition str_name :: "string \<Rightarrow> py_error + string" where
  "str_name s = Inl AttributeError"

record memory_state =
  ms_args :: "kernel_argument list"
  ms_readonly :: "string set"
  ms_host_constants :: "temporary_variable list"
  ms_mem_types :: mem_types

text \<open>
  The loop \<open>for x in [v for arrs in type_changes.values() for v in arrs]\<close>
  that changes the types physically; \<open>list.remove\<close> of an absent element is
  a \<open>ValueError\<close>.
\<close>

fun change_types :: "temporary_variable list \<Rightarrow> memory_state \<Rightarrow> py_error + memory_state" where
  "change_types [] s = Inr s"
| "change_types (x # xs) s =
     (let args' = ms_args s @ [GlobalArg (tv_name x) (tv_dtype x) (map IntDim (tv_shape x))]
      in case set_getitem (ms_readonly s) (- 1) of
           Inl e \<Rightarrow> Inl e
         | Inr item \<Rightarrow>
             (case str_name item of
                Inl e \<Rightarrow> Inl e
              | Inr n \<Rightarrow>
                  if x \<notin> set (m_constant (ms_mem_types s)) then Inl ValueError
                  else
                    change_types xs
                      \<lparr> ms_args = args',
                        ms_readonly = insert n (ms_readonly s),
                        ms_host_constants = ms_host_constants s @ [x],
                        ms_mem_types = (ms_mem_types s)
                          \<lparr> m_global := m_global (ms_mem_types s) @ [TempData x],
                            m_constant := remove1 x (m_constant (ms_mem_types s)) \<rparr> \<rparr>))"

text \<open>
  The result \<open>(args, constants, readonly, host_constants, mem_limits)\<close>; the
  limits object is represented by the \<open>mem_types\<close> it was built from.
\<close>

record memory_result =
  mr_args :: "kernel_argument list"
  mr_constants :: "temporary_variable list"
  mr_readonly :: "string set"
  mr_host_constants :: "temporary_variable list"
  mr_mem_limits :: mem_types

definition process_memory ::
  "numpy \<Rightarrow> string \<Rightarrow> can_fit \<Rightarrow> kernel_argument list \<Rightarrow> string set \<Rightarrow> temporary_variable list
     \<Rightarrow> temporary_variable list \<Rightarrow> py_error + memory_result"
where
  "process_memory np name can_fit args readonly local constants =
     (let mt = \<lparr> m_global = map ArgData (filter (\<lambda>x. \<not> is_ValueArg x) args),
                 m_local = local, m_constant = constants \<rparr>
      in if py_all (can_fit mt [])
         then Inr \<lparr> mr_args = args, mr_constants = constants, mr_readonly = readonly,
                    mr_host_constants = [], mr_mem_limits = mt \<rparr>
         else
           (case greedy_promotion np name can_fit mt constants of
              Inl e \<Rightarrow> Inl e
            | Inr type_changes \<Rightarrow>
                (case change_types type_changes
                        \<lparr> ms_args = args, ms_readonly = readonly,
                          ms_host_constants = [], ms_mem_types = mt \<rparr> of
                   Inl e \<Rightarrow> Inl e
                 | Inr s \<Rightarrow>
                     Inr \<lparr> mr_args = ms_args s, mr_constants = constants,
                           mr_readonly = ms_readonly s,
                           mr_host_constants = ms_host_constants s,
                           mr_mem_limits = ms_mem_types s \<rparr>)))"

section \<open>\<open>kernel_generator._process_args\<close>\<close>

text \<open>
  The attributes of the generator that \<open>_process_args\<close> reads, apart from
  \<open>self.kernels\<close>: \<open>depends_on\<close> holds \<open>dep.kernels\<close> for every dependency.
\<close>

record generator =
  gen_name :: string
  hoist_locals :: bool
  depends_on :: "loop_kernel list list"
  extra_kernel_data :: "kernel_data list"

text \<open>
  The method mutates the list object bound to \<open>kernels\<close>, and reads
  \<open>self.kernels\<close>. Whether the two are one object depends on the caller, so
  the lists live in a store with two addresses: \<open>SelfRef\<close> is the list object
  \<open>self.kernels\<close>, \<open>OtherRef\<close> any other list object (a list the caller
  built, or the copy \<open>self.kernels[:]\<close>).
\<close>

datatype list_ref = SelfRef | OtherRef

record store =
  self_kernels :: "loop_kernel list"
  other_kernels :: "loop_kernel list"

fun get_list :: "list_ref \<Rightarrow> store \<Rightarrow> loop_kernel list" where
  "get_list SelfRef st = self_kernels st"
| "get_list OtherRef st = other_kernels st"

fun set_list :: "list_ref \<Rightarrow> loop_kernel list \<Rightarrow> store \<Rightarrow> store" where
  "set_list SelfRef ks st = st\<lparr>self_kernels := ks\<rparr>"
| "set_list OtherRef ks st = st\<lparr>other_kernels := ks\<rparr>"

text \<open>
  The actual parameter \<open>kernels\<close>: the object \<open>self.kernels\<close> itself (as
  \<open>_generate_wrapping_kernel\<close> passes it through \<open>_merge_kernels\<close>), or
  another list (the driver's kernels; the default is the empty list).
\<close>

datatype kernels_arg = OwnList | PassedList "loop_kernel list"

text \<open>\<open>if not kernels: kernels = self.kernels[:]\<close>\<close>

definition bind_kernels :: "kernels_arg \<Rightarrow> loop_kernel list \<Rightarrow> list_ref \<times> store" where
  "bind_kernels ka self_k =
     (case ka of
        OwnList \<Rightarrow>
          if self_k = [] then (OtherRef, \<lparr>self_kernels = self_k, other_kernels = self_k\<rparr>)
          else (SelfRef, \<lparr>self_kernels = self_k, other_kernels = []\<rparr>)
      | PassedList ks \<Rightarrow>
          if ks = [] then (OtherRef, \<lparr>self_kernels = self_k, other_kernels = self_k\<rparr>)
          else (OtherRef, \<lparr>self_kernels = self_k, other_kernels = ks\<rparr>))"

text \<open>\<open>if use_subkernels: kernels += [knl for dep in self.depends_on for knl in dep.kernels]\<close>\<close>

definition add_subkernels :: "generator \<Rightarrow> bool \<Rightarrow> list_ref \<Rightarrow> store \<Rightarrow> store" where
  "add_subkernels g use_subkernels r st =
     (if use_subkernels then set_list r (get_list r st @ concat (depends_on g)) st else st)"

fun arg_data :: "kernel_data list \<Rightarrow> kernel_argument list" where
  "arg_data [] = []"
| "arg_data (ArgData a # xs) = a # arg_data xs"
| "arg_data (TempData t # xs) = arg_data xs"

fun temp_data :: "kernel_data list \<Rightarrow> temporary_variable list" where
  "temp_data [] = []"
| "temp_data (ArgData a # xs) = temp_data xs"
| "temp_data (TempData t # xs) = t # temp_data xs"

text \<open>The complete list \<open>args\<close> of kernel data.\<close>

definition collect_args :: "generator \<Rightarrow> loop_kernel list \<Rightarrow> kernel_argument list" where
  "collect_args g kernels = concat (map knl_args kernels) @ arg_data (extra_kernel_data g)"

text \<open>\<open>_compare_args\<close>\<close>

definition atomify :: "kernel_argument \<Rightarrow> kernel_argument" where
  "atomify arg =
     KernelArgument (arg_class arg) (arg_name arg) (to_atomic (arg_dtype arg)) (arg_shape arg)"

definition compare_args :: "kernel_argument \<Rightarrow> kernel_argument \<Rightarrow> bool" where
  "compare_args arg1 arg2 = (arg1 = arg2 \<or> atomify arg1 = atomify arg2)"

text \<open>
  The inner loop that fills \<open>same_name\<close>: the distinct arguments of the name,
  in the order they are first met.
\<close>

fun same_name_loop ::
  "string \<Rightarrow> kernel_argument list \<Rightarrow> kernel_argument list \<Rightarrow> kernel_argument list"
where
  "same_name_loop name [] same_name = same_name"
| "same_name_loop name (x # args) same_name =
     same_name_loop name args
       (if arg_name x = name \<and> \<not> (\<exists>y \<in> set same_name. x = y)
        then same_name @ [x] else same_name)"

text \<open>
  \<open>for i, knl in enumerate(self.kernels): if other in knl.args: kernels[i] = ...\<close>.
  The loop runs over \<open>self.kernels\<close> and assigns into \<open>kernels\<close>. An assignment
  keeps the length of the list and writes the position just visited, so the
  iteration sees the elements \<open>self.kernels\<close> had when the loop began, also when
  both names denote one list; the model walks that list with the index \<open>i\<close>.
  Assigning past the end of \<open>kernels\<close> is an \<open>IndexError\<close>.
\<close>

fun replace_other ::
  "kernel_argument \<Rightarrow> kernel_argument \<Rightarrow> list_ref \<Rightarrow> nat \<Rightarrow> loop_kernel list \<Rightarrow> store
     \<Rightarrow> py_error + store"
where
  "replace_other other atomic r i [] st = Inr st"
| "replace_other other atomic r i (knl # rest) st =
     (if other \<in> set (knl_args knl) then
        (if i < length (get_list r st) then
           replace_other other atomic r (Suc i) rest
             (set_list r
                ((get_list r st)
                   [i := knl\<lparr>knl_args := map (\<lambda>x. if x \<noteq> other then x else atomic) (knl_args knl)\<rparr>])
                st)
         else Inl IndexError)
      else replace_other other atomic r (Suc i) rest st)"

text \<open>\<open>same_name.pop()\<close>\<close>

definition py_pop :: "'a list \<Rightarrow> py_error + 'a" where
  "py_pop xs = (if xs = [] then Inl IndexError else Inr (last xs))"

text \<open>The body of the loop over \<open>nameset\<close>, for one name.\<close>

definition resolve_name ::
  "list_ref \<Rightarrow> kernel_argument list \<Rightarrow> string \<Rightarrow> store \<Rightarrow> py_error + kernel_argument \<times> store"
where
  "resolve_name r args name st =
     (let same_name = same_name_loop name args [] in
      if length same_name \<noteq> 1 then
        (case py_next (\<lambda>x. is_atomic (arg_dtype x)) same_name of
           None \<Rightarrow> Inl (CannotResolveArgs same_name)
         | Some atomic \<Rightarrow>
             if length same_name > 2 then Inl (CannotResolveArgs same_name)
             else
               (case py_next (\<lambda>x. x \<noteq> atomic) same_name of
                  None \<Rightarrow> Inl StopIteration
                | Some other \<Rightarrow>
                    if \<not> compare_args other atomic then Inl (CannotResolveArgs same_name)
                    else
                      (case replace_other other atomic r 0 (self_kernels st) st of
                         Inl e \<Rightarrow> Inl e
                       | Inr st' \<Rightarrow>
                           (case py_pop (remove1 other same_name) of
                              Inl e \<Rightarrow> Inl e
                            | Inr a \<Rightarrow> Inr (a, st')))))
      else
        (case py_pop same_name of
           Inl e \<Rightarrow> Inl e
         | Inr a \<Rightarrow> Inr (a, st)))"

fun scan_names ::
  "list_ref \<Rightarrow> kernel_argument list \<Rightarrow> string list \<Rightarrow> kernel_argument list \<Rightarrow> store
     \<Rightarrow> py_error + kernel_argument list \<times> store"
where
  "scan_names r args [] kernel_data st = Inr (kernel_data, st)"
| "scan_names r args (name # nameset) kernel_data st =
     (case resolve_name r args name st of
        Inl e \<Rightarrow> Inl e
      | Inr (a, st') \<Rightarrow> scan_names r args nameset (kernel_data @ [a]) st')"

text \<open>\<open>sorted(set(d.name for d in args))\<close>; Python orders \<open>str\<close> lexicographically.\<close>

definition nameset_of :: "string list \<Rightarrow> string list" where
  "nameset_of names = sort (remdups names)"

text \<open>The set \<open>readonly\<close>.\<close>

definition readonly_names :: "loop_kernel list \<Rightarrow> string set" where
  "readonly_names kernels =
     set (map arg_name
       (filter (\<lambda>arg. \<not> (\<exists>d \<in> set kernels. arg_name arg \<in> set (written_variables d))
                        \<and> \<not> is_ValueArg arg)
          (concat (map knl_args kernels))))"

text \<open>The temporaries that are neither private nor of automatic scope.\<close>

definition shared_scope :: "temporary_variable \<Rightarrow> bool" where
  "shared_scope x = (tv_scope x \<noteq> PRIVATE \<and> tv_scope x \<noteq> AUTO)"

definition collect_temps :: "generator \<Rightarrow> loop_kernel list \<Rightarrow> temporary_variable list" where
  "collect_temps g kernels =
     filter shared_scope (concat (map (\<lambda>k. map snd (temporary_variables k)) kernels))
       @ filter shared_scope (temp_data (extra_kernel_data g))"

text \<open>The loop over the sorted names of the temporaries.\<close>

fun dedup_temps ::
  "temporary_variable list \<Rightarrow> string list \<Rightarrow> temporary_variable list
     \<Rightarrow> py_error + temporary_variable list"
where
  "dedup_temps copy [] temps = Inr temps"
| "dedup_temps copy (name # names) temps =
     (case filter (\<lambda>x. tv_name x = name) copy of
        [] \<Rightarrow> Inl IndexError
      | s # rest \<Rightarrow>
          if length (s # rest) > 1 \<and> \<not> list_all (\<lambda>x. x = s) rest
          then Inl (CannotResolveTemps (s # rest))
          else dedup_temps copy names (temps @ [s]))"

text \<open>\<open>__migrate_locals\<close>, with its \<open>__argify\<close>.\<close>

definition argify :: "temporary_variable \<Rightarrow> kernel_argument" where
  "argify temp =
     KernelArgument (ArrayArg LOCAL) (tv_name temp) (tv_dtype temp) (map IntDim (tv_shape temp))"

definition migrate_locals ::
  "loop_kernel \<Rightarrow> temporary_variable list \<Rightarrow> py_error + loop_kernel"
where
  "migrate_locals knl ldecls =
     (if \<not> list_all (\<lambda>x. tv_scope x = LOCAL) ldecls then Inl AssertionError
      else Inr (knl
        \<lparr> knl_args := knl_args knl @ map argify ldecls,
          temporary_variables :=
            filter (\<lambda>kv. fst kv \<notin> set (map tv_name ldecls)) (temporary_variables knl) \<rparr>))"

text \<open>
  The loop \<open>for i, knl in enumerate(kernels)\<close> under \<open>if self.hoist_locals\<close>,
  with the running \<open>local\<close> and \<open>temps\<close>; it assigns \<open>kernels[i]\<close> at the
  position it visits.
\<close>

fun hoist_loop ::
  "list_ref \<Rightarrow> nat \<Rightarrow> loop_kernel list
     \<Rightarrow> temporary_variable list \<times> temporary_variable list \<times> store
     \<Rightarrow> py_error + temporary_variable list \<times> temporary_variable list \<times> store"
where
  "hoist_loop r i [] s = Inr s"
| "hoist_loop r i (knl # rest) (local, temps, st) =
     (let local_temps = filter (\<lambda>x. tv_scope x = LOCAL) (map snd (temporary_variables knl)) in
      if local_temps \<noteq> [] then
        (case migrate_locals knl local_temps of
           Inl e \<Rightarrow> Inl e
         | Inr knl' \<Rightarrow>
             hoist_loop r (Suc i) rest
               (local @ local_temps,
                filter (\<lambda>x. x \<notin> set local_temps) temps,
                set_list r ((get_list r st)[i := knl']) st))
      else hoist_loop r (Suc i) rest (local, temps, st))"

text \<open>The result \<open>(args, local, readonly, constants, valueargs)\<close>.\<close>

record args_result =
  ar_args :: "kernel_argument list"
  ar_local :: "temporary_variable list"
  ar_readonly :: "string set"
  ar_constants :: "temporary_variable list"
  ar_valueargs :: "kernel_argument list"

text \<open>
  \<open>process_args g self_k ka use_subkernels\<close> returns the result together with
  the address bound to \<open>kernels\<close> and the store the call leaves behind.
\<close>

definition process_args ::
  "generator \<Rightarrow> loop_kernel list \<Rightarrow> kernels_arg \<Rightarrow> bool
     \<Rightarrow> py_error + args_result \<times> list_ref \<times> store"
where
  "process_args g self_k ka use_subkernels =
     (case bind_kernels ka self_k of
        (r, st0) \<Rightarrow>
          (let st1 = add_subkernels g use_subkernels r st0;
               args = collect_args g (get_list r st1)
           in case scan_names r args (nameset_of (map arg_name args)) [] st1 of
                Inl e \<Rightarrow> Inl e
              | Inr (kernel_data, st2) \<Rightarrow>
                  (case utils_partition kernel_data is_ValueArg of
                     (valueargs, args') \<Rightarrow>
                       (let readonly = readonly_names (get_list r st2);
                            copy = collect_temps g (get_list r st2)
                        in case dedup_temps copy (nameset_of (map tv_name copy)) [] of
                             Inl e \<Rightarrow> Inl e
                           | Inr temps \<Rightarrow>
                               (case (if hoist_locals g
                                      then hoist_loop r 0 (get_list r st2) ([], temps, st2)
                                      else Inr ([], temps, st2)) of
                                  Inl e \<Rightarrow> Inl e
                                | Inr (local, temps', st3) \<Rightarrow>
                                    Inr (\<lparr> ar_args = args', ar_local = local,
                                            ar_readonly = readonly,
                                            ar_constants = fst (utils_partition temps' tv_read_only),
                                            ar_valueargs = valueargs \<rparr>, r, st3))))))"

text \<open>The list \<open>kernels\<close> after a call.\<close>

definition kernels_after :: "args_result \<times> list_ref \<times> store \<Rightarrow> loop_kernel list" where
  "kernels_after out = get_list (fst (snd out)) (snd (snd out))"

section \<open>Notions of the specification\<close>


definition arg_size :: "kernel_argument \<Rightarrow> int" where
  "arg_size arg = prod_list (int_dims (arg_shape arg))"

definition running_total :: "kernel_argument list \<Rightarrow> nat \<Rightarrow> int" where
  "running_total args i = sum_list (map arg_size (take i args))"

text \<open>
  Dimensions whose product a 64-bit signed integer holds: no dimension is
  negative, and the dimensions and their product are below \<open>2^63\<close>.
\<close>

definition representable :: "int list \<Rightarrow> bool" where
  "representable dims =
     (list_all (\<lambda>d. 0 \<le> d \<and> d < 2 ^ 63) dims \<and> prod_list dims < 2 ^ 63)"

text \<open>
  The arrays the packer accepts: an array argument of floating-point dtype
  that has, unless the user fixed the work size, exactly one symbolic
  dimension, the work size.
\<close>

definition packable :: "string \<Rightarrow> loopy_options \<Rightarrow> kernel_argument \<Rightarrow> bool" where
  "packable w_size_name loopy_opts arg =
     (\<not> is_integral (arg_dtype arg) \<and> \<not> is_ValueArg arg
      \<and> (work_size loopy_opts = None \<longrightarrow> sym_dims (arg_shape arg) = [w_size_name]))"

text \<open>
  The kernels a call of \<open>_process_args\<close> works on: the list bound to \<open>kernels\<close>
  once the kernels of the dependencies have been added.
\<close>

definition processed_kernels ::
  "generator \<Rightarrow> loop_kernel list \<Rightarrow> kernels_arg \<Rightarrow> bool \<Rightarrow> loop_kernel list" where
  "processed_kernels g self_k ka use_subkernels =
     (case bind_kernels ka self_k of
        (r, st0) \<Rightarrow> get_list r (add_subkernels g use_subkernels r st0))"

section \<open>Concrete inputs\<close>

text \<open>Constant arrays of 6 and 4 elements, and a sparse-Jacobian index array.\<close>

definition ex_big :: temporary_variable where
  "ex_big = TemporaryVariable ''big'' (NumpyType Float64) [6] GLOBAL True"

definition ex_small :: temporary_variable where
  "ex_small = TemporaryVariable ''small'' (NumpyType Float64) [4] GLOBAL True"

definition ex_sparse :: temporary_variable where
  "ex_sparse = TemporaryVariable ''sparse_jac_row_inds'' (NumpyType Int32) [50] GLOBAL True"

text \<open>
  A constant array of \<open>2^32\<close> by \<open>2^32\<close> elements, and a work array with
  \<open>2^32\<close> by \<open>2^31\<close> elements per work item: every dimension is in the range of
  a 64-bit signed integer, the product is not.
\<close>

definition ex_huge :: temporary_variable where
  "ex_huge = TemporaryVariable ''huge'' (NumpyType Float64) [4294967296, 4294967296] GLOBAL True"

definition ex_wide :: kernel_argument where
  "ex_wide = GlobalArg ''wide'' (NumpyType Float64)
               [SymDim ''work_size'', IntDim 4294967296, IntDim 2147483648]"

text \<open>
  A NumPy for the evaluations below, which all stay on sequences in the
  64-bit range: outside it, it multiplies exactly.
\<close>

definition ex_numpy :: numpy where
  "ex_numpy = \<lparr> prod_wide = prod_list,
                sorted_wide = sort_key (\<lambda>x. - prod_list (tv_shape x)) \<rparr>"

text \<open>A budget that fits as soon as one array has been promoted, and one that never fits.\<close>

definition ex_fit_after_one :: can_fit where
  "ex_fit_after_one mt type_changes = [True, True, 1 \<le> length type_changes]"

definition ex_never_fits :: can_fit where
  "ex_never_fits mt type_changes = [True, True, False]"

definition ex_mem_types :: "temporary_variable list \<Rightarrow> mem_types" where
  "ex_mem_types constants = \<lparr> m_global = [], m_local = [], m_constant = constants \<rparr>"

text \<open>Two work arrays for the packer.\<close>

definition ex_opts :: loopy_options where
  "ex_opts = \<lparr> depth = Some 4, width = None, is_simd = False, lang = ''opencl'',
               unr = None, ilp = False, work_size = None \<rparr>"

definition ex_conc :: kernel_argument where
  "ex_conc = GlobalArg ''conc'' (NumpyType Float64) [SymDim ''work_size'', IntDim 9]"

definition ex_jac :: kernel_argument where
  "ex_jac = GlobalArg ''jac'' (NumpyType Float64) [SymDim ''work_size'', IntDim 10, IntDim 10]"

text \<open>
  A loopy whose kernels are the logs of the transformations applied to them,
  and a fix-up function that logs itself.
\<close>

definition trace_lp :: "string list loopy" where
  "trace_lp =
     \<lparr> split_iname = (\<lambda>knl iname w tag. knl @ [''split_iname '' @ iname @ '' '' @ tag]),
       tag_inames = (\<lambda>knl tags. knl @ map (\<lambda>t. ''tag_inames '' @ fst t @ '' '' @ snd t) tags),
       vecwith_fix = (\<lambda>knl w. knl @ [''vecwith_fixer'']) \<rparr>"

definition ex_vecspec :: "string list \<Rightarrow> string list" where
  "ex_vecspec knl = knl @ [''vecspec'']"

definition ex_can_vectorize_lang :: "string \<rightharpoonup> bool" where
  "ex_can_vectorize_lang = [''opencl'' \<mapsto> True, ''c'' \<mapsto> False]"

text \<open>
  An argument \<open>k\<close> and its atomic variant, each in a kernel of its own, and a
  generator whose own kernel does not mention \<open>k\<close>.
\<close>

definition ex_k_atomic :: kernel_argument where
  "ex_k_atomic = GlobalArg ''k'' (AtomicNumpyType Float64) [SymDim ''work_size'', IntDim 3]"

definition ex_k_plain :: kernel_argument where
  "ex_k_plain = GlobalArg ''k'' (NumpyType Float64) [SymDim ''work_size'', IntDim 3]"

definition ex_phi :: kernel_argument where
  "ex_phi = GlobalArg ''phi'' (NumpyType Float64) [SymDim ''work_size'', IntDim 5]"

definition ex_knl_atomic :: loop_kernel where
  "ex_knl_atomic = \<lparr> knl_name = ''rates'', knl_args = [ex_k_atomic],
                     temporary_variables = [], written_variables = [''k''] \<rparr>"

definition ex_knl_plain :: loop_kernel where
  "ex_knl_plain = \<lparr> knl_name = ''copy'', knl_args = [ex_k_plain],
                    temporary_variables = [], written_variables = [] \<rparr>"

definition ex_knl_own :: loop_kernel where
  "ex_knl_own = \<lparr> knl_name = ''own'', knl_args = [ex_phi],
                  temporary_variables = [], written_variables = [''phi''] \<rparr>"

definition ex_gen :: generator where
  "ex_gen = \<lparr> gen_name = ''gen'', hoist_locals = False, depends_on = [],
              extra_kernel_data = [] \<rparr>"

text \<open>
  Two arguments \<open>z\<close> of different shape, in a passed kernel and in a kernel of
  a dependency that also uses the plain \<open>k\<close>; the generator's own third kernel
  uses the plain \<open>k\<close> as well.
\<close>

definition ex_z3 :: kernel_argument where
  "ex_z3 = GlobalArg ''z'' (NumpyType Float64) [SymDim ''work_size'', IntDim 3]"

definition ex_z4 :: kernel_argument where
  "ex_z4 = GlobalArg ''z'' (NumpyType Float64) [SymDim ''work_size'', IntDim 4]"

definition ex_knl_passed :: loop_kernel where
  "ex_knl_passed = \<lparr> knl_name = ''driver'', knl_args = [ex_k_atomic, ex_z3],
                     temporary_variables = [], written_variables = [''k''] \<rparr>"

definition ex_knl_dep :: loop_kernel where
  "ex_knl_dep = \<lparr> knl_name = ''dep'', knl_args = [ex_k_plain, ex_z4],
                  temporary_variables = [], written_variables = [''z''] \<rparr>"

definition ex_gen_dep :: generator where
  "ex_gen_dep = \<lparr> gen_name = ''gen'', hoist_locals = False, depends_on = [ex_knl_dep] # [],
                  extra_kernel_data = [] \<rparr>"

text \<open>
  A kernel that declares its arguments and temporaries out of alphabetical
  order.
\<close>

definition ex_n :: kernel_argument where
  "ex_n = KernelArgument ValueArg ''n'' (NumpyType Int32) []"

definition ex_knl_unsorted :: loop_kernel where
  "ex_knl_unsorted =
     \<lparr> knl_name = ''unsorted'', knl_args = [ex_phi, ex_n, ex_k_plain],
       temporary_variables = [(''small'', ex_small), (''big'', ex_big)],
       written_variables = [''phi''] \<rparr>"

text \<open>
  Running the resolution a second time: on the same generator, whose
  \<open>self.kernels\<close> is what the first call left, and with the same actual
  parameter (the list object the caller passed holds the kernels the first
  call left in it; the default stays the default).
\<close>

definition rerun_arg :: "kernels_arg \<Rightarrow> loop_kernel list \<Rightarrow> kernels_arg" where
  "rerun_arg ka kernels' =
     (case ka of
        OwnList \<Rightarrow> OwnList
      | PassedList ks \<Rightarrow> if ks = [] then PassedList [] else PassedList kernels')"

definition process_args_twice ::
  "generator \<Rightarrow> loop_kernel list \<Rightarrow> kernels_arg \<Rightarrow> bool
     \<Rightarrow> py_error + args_result \<times> args_result"
where
  "process_args_twice g self_k ka use_subkernels =
     (case process_args g self_k ka use_subkernels of
        Inl e \<Rightarrow> Inl e
      | Inr out \<Rightarrow>
          (case process_args g (self_kernels (snd (snd out)))
                  (rerun_arg ka (kernels_after out)) use_subkernels of
             Inl e \<Rightarrow> Inl e
           | Inr out' \<Rightarrow> Inr (fst out, fst out')))"

text \<open>
  Arguments that are already resolved: no name has two variants. Kernels
  without temporaries of local scope.
\<close>

definition resolved :: "kernel_argument list \<Rightarrow> bool" where
  "resolved args = (\<forall>a \<in> set args. \<forall>b \<in> set args. arg_name a = arg_name b \<longrightarrow> a = b)"

definition no_local_temps :: "loop_kernel list \<Rightarrow> bool" where
  "no_local_temps kernels =
     (\<forall>k \<in> set kernels. \<forall>t \<in> set (temporary_variables k). tv_scope (snd t) \<noteq> LOCAL)"

text \<open>The result of a call on resolved arguments, from the scan and the temporaries.\<close>

definition partition_of ::
  "kernel_argument list \<Rightarrow> loop_kernel list \<Rightarrow> temporary_variable list \<Rightarrow> args_result" where
  "partition_of kd ks temps =
     \<lparr> ar_args = filter (\<lambda>x. \<not> is_ValueArg x) kd, ar_local = [],
       ar_readonly = readonly_names ks,
       ar_constants = filter tv_read_only temps,
       ar_valueargs = filter is_ValueArg kd \<rparr>"

text \<open>
  A generator that hoists locals (the OpenCL generator) with a kernel that
  declares a local buffer; and a generator with a dependency.
\<close>

definition ex_lbuf :: temporary_variable where
  "ex_lbuf = TemporaryVariable ''lbuf'' (NumpyType Float64) [8] LOCAL False"

definition ex_knl_local :: loop_kernel where
  "ex_knl_local = \<lparr> knl_name = ''reduce'', knl_args = [ex_phi],
                    temporary_variables = [(''lbuf'', ex_lbuf)],
                    written_variables = [''phi''] \<rparr>"

definition ex_gen_hoist :: generator where
  "ex_gen_hoist = \<lparr> gen_name = ''gen'', hoist_locals = True, depends_on = [],
                    extra_kernel_data = [] \<rparr>"

definition ex_gen_with_dep :: generator where
  "ex_gen_with_dep = \<lparr> gen_name = ''gen'', hoist_locals = True,
                       depends_on = [ex_knl_plain] # [], extra_kernel_data = [ArgData ex_n] \<rparr>"

text \<open>
  A name whose arguments cannot be merged: two of them differ in more than
  atomicity (they still differ once both are made atomic), or the name has
  more than two variants.
\<close>

definition conflicting :: "kernel_argument list \<Rightarrow> string \<Rightarrow> bool" where
  "conflicting args n =
     ((\<exists>a \<in> set args. \<exists>b \<in> set args.
          arg_name a = n \<and> arg_name b = n \<and> atomify a \<noteq> atomify b)
      \<or> 2 < card {x \<in> set args. arg_name x = n})"

text \<open>
  A kernel rewritten to use the atomic variant: what the loop of
  \<open>_process_args\<close> assigns for a kernel that has \<open>other\<close> among its arguments.
\<close>

definition use_atomic :: "kernel_argument \<Rightarrow> kernel_argument \<Rightarrow> loop_kernel \<Rightarrow> loop_kernel" where
  "use_atomic other atomic knl =
     (if other \<in> set (knl_args knl)
      then knl\<lparr>knl_args := map (\<lambda>x. if x \<noteq> other then x else atomic) (knl_args knl)\<rparr>
      else knl)"

section \<open>Greedy promotion\<close>

lemma promote_while_prefix:
  "promote_while name can_fit mt tc gtemps = Inr res
     \<Longrightarrow> \<exists>k \<le> length gtemps. res = tc @ take k gtemps"
proof (induction gtemps arbitrary: tc)
  case Nil
  then show ?case by (simp split: if_splits)
next
  case (Cons g gtemps)
  show ?case
  proof (cases "py_all (can_fit mt tc)")
    case True
    with Cons.prems have "res = tc" by simp
    then show ?thesis by (intro exI[of _ 0]) simp
  next
    case False
    with Cons.prems have "promote_while name can_fit mt (tc @ [g]) gtemps = Inr res" by simp
    from Cons.IH[OF this] obtain k where "k \<le> length gtemps" "res = (tc @ [g]) @ take k gtemps"
      by blast
    then show ?thesis by (intro exI[of _ "Suc k"]) simp
  qed
qed

lemma greedy_promotion_prefix:
  assumes "greedy_promotion np name can_fit mt constants = Inr tc"
  shows "\<exists>k. 1 \<le> k \<and> k \<le> length (gtemps_of np constants)
           \<and> tc = take k (gtemps_of np constants)"
proof (cases "gtemps_of np constants")
  case Nil
  with assms show ?thesis by (simp add: greedy_promotion_def)
next
  case (Cons g gtemps)
  with assms have "promote_while name can_fit mt [g] gtemps = Inr tc"
    by (simp add: greedy_promotion_def)
  from promote_while_prefix[OF this] obtain k where "k \<le> length gtemps" "tc = [g] @ take k gtemps"
    by blast
  with Cons show ?thesis by (intro exI[of _ "Suc k"]) simp
qed

text \<open>
  \<open>np_prod\<close> is the product of the dimensions for every shape whose element
  count a 64-bit signed integer holds.
\<close>

lemma wrap_int64_exact:
  assumes "- (2 ^ 63) \<le> i" and "i < 2 ^ 63"
  shows "wrap_int64 i = i"
proof -
  have "0 \<le> i + 2 ^ 63" and "i + 2 ^ 63 < (2 ^ 64 :: int)"
    using assms by simp_all
  then have "(i + 2 ^ 63) mod 2 ^ 64 = i + 2 ^ 63"
    by (rule mod_pos_pos_trivial)
  then show ?thesis by (simp add: wrap_int64_def)
qed

lemma prod_list_nonneg: "list_all (\<lambda>d. 0 \<le> d) xs \<Longrightarrow> 0 \<le> prod_list (xs :: int list)"
  by (induction xs) simp_all

lemma representable_in_int64: "representable xs \<Longrightarrow> list_all in_int64 xs"
  by (auto simp: representable_def in_int64_def list_all_iff)

lemma representable_nonneg: "representable xs \<Longrightarrow> 0 \<le> prod_list xs"
  by (rule prod_list_nonneg) (auto simp: representable_def list_all_iff)

lemma np_prod_exact:
  assumes "representable xs"
  shows "np_prod np xs = prod_list xs"
proof -
  have "0 \<le> prod_list xs" using assms by (rule representable_nonneg)
  then have "- (2 ^ 63) \<le> prod_list xs" by simp
  moreover have "prod_list xs < 2 ^ 63" using assms by (simp add: representable_def)
  ultimately have "wrap_int64 (prod_list xs) = prod_list xs" by (rule wrap_int64_exact)
  with representable_in_int64[OF assms] show ?thesis by (simp add: np_prod_def)
qed






text \<open>The same, whatever NumPy does outside the 64-bit range.\<close>

lemma greedy_promotion_wrapped_count_any:
  "greedy_promotion np ''knl'' ex_fit_after_one (ex_mem_types [ex_huge, ex_small])
       [ex_huge, ex_small] = Inr [ex_small]"
  by code_simp



section \<open>Memory placement: what the call returns\<close>

lemma change_types_raises: "type_changes \<noteq> [] \<Longrightarrow> change_types type_changes s = Inl TypeError"
  by (cases type_changes) (simp_all add: set_getitem_def)

text \<open>
  \<open>_process_memory\<close> returns only when the first check fits: after a
  promotion the loop that changes the types raises at \<open>readonly[-1]\<close>.
\<close>

lemma process_memory_returns_unpromoted:
  assumes "process_memory np name can_fit args readonly local constants = Inr r"
  shows "py_all (can_fit \<lparr> m_global = map ArgData (filter (\<lambda>x. \<not> is_ValueArg x) args),
                 m_local = local, m_constant = constants \<rparr> [])
         \<and> mr_host_constants r = [] \<and> mr_args r = args \<and> mr_readonly r = readonly"
proof -
  let ?mt = "\<lparr> m_global = map ArgData (filter (\<lambda>x. \<not> is_ValueArg x) args),
                 m_local = local, m_constant = constants \<rparr>"
  show ?thesis
  proof (cases "py_all (can_fit ?mt [])")
    case True
    with assms show ?thesis by (auto simp: process_memory_def Let_def)
  next
    case False
    show ?thesis
    proof (cases "greedy_promotion np name can_fit ?mt constants")
      case (Inl e)
      with False assms show ?thesis by (simp add: process_memory_def Let_def)
    next
      case (Inr tc)
      from greedy_promotion_prefix[OF Inr] have "tc \<noteq> []" by auto
      from change_types_raises[OF this] Inr False assms show ?thesis
        by (simp add: process_memory_def Let_def)
    qed
  qed
qed

text \<open>
  C1. The claim is that after a successful promotion \<open>_process_memory\<close>
  returns the promoted arrays as host constants, as new read-only global
  arguments and in the read-only set. On constants of 4 and 6 elements and a
  budget that fits once one array is promoted, the greedy promotion succeeds
  with the array of 6 elements, and \<open>_process_memory\<close> raises \<open>TypeError\<close>
  instead of returning.
\<close>

theorem process_memory_promotion_raises:
  "process_memory ex_numpy ''knl'' ex_fit_after_one [] {} [] [ex_small, ex_big] = Inl TypeError"
  by code_simp

text \<open>
  C5. The claim is that the promotion takes at most as many steps as there
  are candidates, and that exhausting the candidates while the kernel does not
  fit raises the error that names the kernel. With no eligible candidate (the
  only constant is a sparse-Jacobian array) and a budget that does not fit,
  the pool is exhausted from the start, and the promotion raises \<open>IndexError\<close>
  at \<open>gtemps[0]\<close>.
\<close>

theorem greedy_promotion_no_candidate:
  "greedy_promotion ex_numpy ''knl'' ex_never_fits (ex_mem_types [ex_sparse]) [ex_sparse]
     = Inl IndexError"
  by code_simp

text \<open>With candidates, exhausting them is the error that names the kernel.\<close>

lemma greedy_promotion_exhausted:
  "greedy_promotion ex_numpy ''knl'' ex_never_fits (ex_mem_types [ex_small, ex_big])
       [ex_small, ex_big]
     = Inl (CannotFit ''knl'')"
  by code_simp

lemma promote_while_error:
  "promote_while name can_fit mt tc gtemps = Inl e \<Longrightarrow> e = CannotFit name"
  by (induction gtemps arbitrary: tc) (auto split: if_splits)

text \<open>
  The promotion stops after at most as many steps as there are candidates,
  and with at least one candidate its only error is \<open>CannotFit\<close>.
\<close>

lemma greedy_promotion_bounded:
  "greedy_promotion np name can_fit mt constants = Inr tc
     \<Longrightarrow> length tc \<le> length (gtemps_of np constants)"
  by (drule greedy_promotion_prefix) auto

lemma greedy_promotion_error:
  "greedy_promotion np name can_fit mt constants = Inl e
     \<Longrightarrow> (gtemps_of np constants = [] \<and> e = IndexError)
         \<or> (gtemps_of np constants \<noteq> [] \<and> e = CannotFit name)"
  by (cases "gtemps_of np constants") (auto simp: greedy_promotion_def dest: promote_while_error)

section \<open>The working buffer\<close>

lemma check_work_size_None: "check_work_size w ssizes = None \<longleftrightarrow> ssizes = [w]"
  by (cases ssizes) (auto simp: check_work_size_def)

lemma check_work_size_same: "check_work_size w [w] = None"
  by (simp add: check_work_size_def)

lemma running_total_Cons_Suc:
  "running_total (a # args) (Suc i) = arg_size a + running_total args i"
  by (simp add: running_total_def)

lemma running_total_0: "running_total args 0 = 0"
  by (simp add: running_total_def)

lemma running_total_Suc:
  "i < length args \<Longrightarrow> running_total args (Suc i) = running_total args i + arg_size (args ! i)"
  by (simp add: running_total_def take_Suc_conv_app_nth)

lemma running_total_mono:
  assumes "\<forall>a \<in> set args. 0 \<le> arg_size a" and "i \<le> j"
  shows "running_total args i \<le> running_total args j"
  using assms(2)
proof (induction rule: dec_induct)
  case base
  show ?case by simp
next
  case (step n)
  have "running_total args n \<le> running_total args (Suc n)"
  proof (cases "n < length args")
    case True
    then have "0 \<le> arg_size (args ! n)" using assms(1) by simp
    with running_total_Suc[OF True] show ?thesis by simp
  next
    case False
    then show ?thesis by (simp add: running_total_def)
  qed
  with step.IH show ?case by simp
qed

lemma representable_arg_size:
  "representable (int_dims (arg_shape a)) \<Longrightarrow> 0 \<le> arg_size a"
  unfolding arg_size_def by (rule representable_nonneg)

lemma working_buffer_loop_ok:
  assumes "\<forall>a \<in> set args. packable w opts a"
    and "\<forall>a \<in> set args. representable (int_dims (arg_shape a))"
  shows "\<exists>offs'. working_buffer_loop np w opts args s offs
                   = Inr (s + sum_list (map arg_size args), offs')
     \<and> (\<forall>n. n \<notin> arg_name ` set args \<longrightarrow> offs' n = offs n)
     \<and> dom offs' = dom offs \<union> arg_name ` set args
     \<and> (distinct (map arg_name args) \<longrightarrow>
          (\<forall>i < length args. offs' (arg_name (args ! i))
              = Some (format_offset (s + running_total args i) (work_size_str w opts))))"
  using assms
proof (induction args arbitrary: s offs)
  case Nil
  then show ?case by simp
next
  case (Cons a args)
  let ?offs1 = "offs(arg_name a \<mapsto> format_offset s (work_size_str w opts))"
  let ?s1 = "s + arg_size a"
  from Cons.prems have pa: "packable w opts a" and rest: "\<forall>a \<in> set args. packable w opts a"
    and ra: "representable (int_dims (arg_shape a))"
    and rrest: "\<forall>a \<in> set args. representable (int_dims (arg_shape a))"
    by auto
  from Cons.IH[OF rest rrest, of ?s1 ?offs1] obtain offs' where
    run: "working_buffer_loop np w opts args ?s1 ?offs1
            = Inr (?s1 + sum_list (map arg_size args), offs')"
    and keep: "\<forall>n. n \<notin> arg_name ` set args \<longrightarrow> offs' n = ?offs1 n"
    and dm: "dom offs' = dom ?offs1 \<union> arg_name ` set args"
    and at: "distinct (map arg_name args) \<longrightarrow>
          (\<forall>i < length args. offs' (arg_name (args ! i))
              = Some (format_offset (?s1 + running_total args i) (work_size_str w opts)))"
    by blast
  have sz: "np_prod np (int_dims (arg_shape a)) = arg_size a"
    using ra by (simp add: np_prod_exact arg_size_def)
  have step: "working_buffer_loop np w opts (a # args) s offs
                = working_buffer_loop np w opts args ?s1 ?offs1"
    using pa by (cases "work_size opts")
      (simp_all add: packable_def sz Let_def check_work_size_same)
  have 1: "working_buffer_loop np w opts (a # args) s offs
             = Inr (s + sum_list (map arg_size (a # args)), offs')"
    using step run by (simp add: add.assoc)
  have 2: "\<forall>n. n \<notin> arg_name ` set (a # args) \<longrightarrow> offs' n = offs n"
    using keep by auto
  have 3: "dom offs' = dom offs \<union> arg_name ` set (a # args)"
    using dm by auto
  have 4: "offs' (arg_name ((a # args) ! i))
              = Some (format_offset (s + running_total (a # args) i) (work_size_str w opts))"
    if d: "distinct (map arg_name (a # args))" and i: "i < length (a # args)" for i
  proof (cases i)
    case 0
    from d have "arg_name a \<notin> arg_name ` set args" by auto
    with keep have "offs' (arg_name a) = ?offs1 (arg_name a)" by blast
    with 0 show ?thesis by (simp add: running_total_0)
  next
    case (Suc j)
    with i have j: "j < length args" by simp
    from d have "distinct (map arg_name args)" by simp
    with at j have "offs' (arg_name (args ! j))
        = Some (format_offset (?s1 + running_total args j) (work_size_str w opts))" by blast
    with Suc show ?thesis by (simp add: running_total_Cons_Suc add.assoc)
  qed
  from 1 2 3 4 show ?case by blast
qed

text \<open>The packer returns only on arrays it accepts.\<close>

lemma working_buffer_loop_returns:
  "working_buffer_loop np w opts args s offs = Inr r \<Longrightarrow> \<forall>a \<in> set args. packable w opts a"
proof (induction args arbitrary: s offs)
  case Nil
  then show ?case by simp
next
  case (Cons a args)
  then show ?case
    by (auto simp: packable_def Let_def check_work_size_None[symmetric]
          split: if_splits option.splits)
qed

text \<open>
  An array of \<open>2^32\<close> by \<open>2^31\<close> elements per work item, followed by one of 9:
  what the packer returns, whatever NumPy does outside the 64-bit range.
\<close>

lemma np_prod_wide_dims: "np_prod np [4294967296, 2147483648] = - 9223372036854775808"
  by (simp add: np_prod_def in_int64_def wrap_int64_def)

lemma np_prod_9: "np_prod np [9] = 9"
  by (simp add: np_prod_def in_int64_def wrap_int64_def)

lemma digit_chars:
  "digit_char 0 = CHR ''0''" "digit_char 1 = CHR ''1''" "digit_char 2 = CHR ''2''"
  "digit_char 3 = CHR ''3''" "digit_char 4 = CHR ''4''" "digit_char 5 = CHR ''5''"
  "digit_char 6 = CHR ''6''" "digit_char 7 = CHR ''7''" "digit_char 8 = CHR ''8''"
  "digit_char 9 = CHR ''9''"
  by code_simp+

lemma str_int_wrapped: "str_int (- 9223372036854775808) = ''-9223372036854775808''"
  by (simp add: str_int_def str_nat.simps digit_chars)

lemma str_int_0: "str_int 0 = ''0''"
  by (simp add: str_int_def str_nat.simps digit_chars)

lemma working_buffer_wide:
  "get_working_buffer np ''work_size'' ex_opts [ex_wide, ex_conc]
     = Inr (- 9223372036854775799,
            [''wide'' \<mapsto> ''0 * work_size'',
             ''conc'' \<mapsto> ''-9223372036854775808 * work_size''])"
  by (simp add: get_working_buffer_def ex_wide_def ex_conc_def ex_opts_def GlobalArg_def
        is_ValueArg_def Let_def check_work_size_def np_prod_wide_dims np_prod_9
        format_offset_def work_size_str_def str_int_wrapped str_int_0)

lemma arg_size_wide: "arg_size ex_wide = 9223372036854775808"
  by (simp add: arg_size_def ex_wide_def GlobalArg_def)

lemma arg_size_conc: "arg_size ex_conc = 9"
  by (simp add: arg_size_def ex_conc_def GlobalArg_def)

text \<open>
  C6. The claim is that for every list of floating-point arrays the returned
  elements-per-item is the sum of the sizes, the size of an array being the
  product of its fixed dimensions, and that the regions do not overlap. The
  code takes the size as \<open>int(np.prod(isizes))\<close>, which wraps around at 64 bits:
  for an array of \<open>2^32\<close> by \<open>2^31\<close> elements per work item followed by one of 9,
  the size of the first is taken as \<open>-2^63\<close>, the second array is placed at a
  negative offset, in front of the first, and the returned number is not the
  sum of the two products.
\<close>

theorem working_buffer_size_wraps:
  "map_sum id fst (get_working_buffer ex_numpy ''work_size'' ex_opts [ex_wide, ex_conc])
     = Inr (- 9223372036854775799)
   \<and> map_sum id (\<lambda>r. snd r ''wide'')
       (get_working_buffer ex_numpy ''work_size'' ex_opts [ex_wide, ex_conc])
     = Inr (Some ''0 * work_size'')
   \<and> map_sum id (\<lambda>r. snd r ''conc'')
       (get_working_buffer ex_numpy ''work_size'' ex_opts [ex_wide, ex_conc])
     = Inr (Some ''-9223372036854775808 * work_size'')
   \<and> arg_size ex_wide = 9223372036854775808
   \<and> arg_size ex_wide + arg_size ex_conc = 9223372036854775817"
  by (simp add: working_buffer_wide arg_size_wide arg_size_conc)

text \<open>
  C6, for arrays whose sizes a 64-bit signed integer holds. For every list of
  floating-point arrays that carry the work-size dimension, with one entry
  per name and representable fixed dimensions, \<open>_get_working_buffer\<close> returns
  the sum of the per-item sizes and one offset per array: the offset of the
  \<open>i\<close>-th array is the running total before it, times the work size. The
  running total is 0 for the first array, grows by the size of each array,
  and is the returned size after the last one. No size is negative, so for
  every work size \<open>n\<close> the region of an array, from its offset over
  \<open>size * n\<close> elements, ends where the region of the next array starts and
  not after the start of any later one: the regions are adjacent and do not
  overlap.
\<close>

theorem working_buffer_offsets_tight:
  assumes "\<forall>a \<in> set args. packable w_size_name loopy_opts a"
    and "\<forall>a \<in> set args. representable (int_dims (arg_shape a))"
    and "distinct (map arg_name args)"
  shows "\<exists>offsets.
      get_working_buffer np w_size_name loopy_opts args
        = Inr (sum_list (map arg_size args), offsets)
    \<and> (\<forall>i < length args. offsets (arg_name (args ! i))
          = Some (format_offset (running_total args i) (work_size_str w_size_name loopy_opts)))
    \<and> dom offsets = arg_name ` set args
    \<and> running_total args 0 = 0
    \<and> (\<forall>i < length args. running_total args (Suc i) = running_total args i + arg_size (args ! i))
    \<and> running_total args (length args) = sum_list (map arg_size args)
    \<and> (\<forall>i < length args. 0 \<le> arg_size (args ! i))
    \<and> (\<forall>n \<ge> 0. \<forall>j < length args. \<forall>i < j.
          running_total args i * n + arg_size (args ! i) * n \<le> running_total args j * n)"
proof -
  from working_buffer_loop_ok[OF assms(1) assms(2), of np 0 Map.empty] assms(3) obtain offs' where
    run: "working_buffer_loop np w_size_name loopy_opts args 0 Map.empty
            = Inr (sum_list (map arg_size args), offs')"
    and dm: "dom offs' = arg_name ` set args"
    and at: "\<forall>i < length args. offs' (arg_name (args ! i))
              = Some (format_offset (running_total args i) (work_size_str w_size_name loopy_opts))"
    by auto
  have total: "running_total args (length args) = sum_list (map arg_size args)"
    by (simp add: running_total_def)
  have nonneg: "\<forall>a \<in> set args. 0 \<le> arg_size a"
    using assms(2) by (blast intro: representable_arg_size)
  then have nn: "\<forall>i < length args. 0 \<le> arg_size (args ! i)"
    by simp
  have apart: "running_total args i * n + arg_size (args ! i) * n \<le> running_total args j * n"
    if "0 \<le> n" "j < length args" "i < j" for n i j
  proof -
    from that have i: "i < length args" by simp
    have "running_total args (Suc i) \<le> running_total args j"
      using nonneg that(3) by (intro running_total_mono) simp_all
    then have "running_total args i + arg_size (args ! i) \<le> running_total args j"
      using running_total_Suc[OF i] by simp
    then have "(running_total args i + arg_size (args ! i)) * n \<le> running_total args j * n"
      using that(1) by (rule mult_right_mono)
    then show ?thesis by (simp add: distrib_right)
  qed
  from run dm at total nn apart show ?thesis
    unfolding get_working_buffer_def
    by (intro exI[of _ offs']) (simp add: running_total_0 running_total_Suc)
qed

text \<open>Two arrays of 9 and 100 elements per work item.\<close>

theorem working_buffer_offsets_tight_witness:
  "packable ''work_size'' ex_opts ex_conc
   \<and> packable ''work_size'' ex_opts ex_jac
   \<and> representable (int_dims (arg_shape ex_conc))
   \<and> representable (int_dims (arg_shape ex_jac))
   \<and> distinct (map arg_name [ex_conc, ex_jac])
   \<and> (\<exists>offsets. get_working_buffer ex_numpy ''work_size'' ex_opts [ex_conc, ex_jac]
                   = Inr (109, offsets)
        \<and> offsets ''conc'' = Some ''0 * work_size''
        \<and> offsets ''jac'' = Some ''9 * work_size'')
   \<and> running_total [ex_conc, ex_jac] 0 * 4 + arg_size ex_conc * 4
       \<le> running_total [ex_conc, ex_jac] 1 * 4"
proof -
  have p0: "packable ''work_size'' ex_opts ex_conc" and p1: "packable ''work_size'' ex_opts ex_jac"
    by (simp_all add: packable_def ex_conc_def ex_jac_def ex_opts_def GlobalArg_def
          is_ValueArg_def)
  then have p: "\<forall>a \<in> set [ex_conc, ex_jac]. packable ''work_size'' ex_opts a"
    by simp
  have q0: "representable (int_dims (arg_shape ex_conc))"
    and q1: "representable (int_dims (arg_shape ex_jac))"
    by code_simp+
  then have q: "\<forall>a \<in> set [ex_conc, ex_jac]. representable (int_dims (arg_shape a))"
    by simp
  have d: "distinct (map arg_name [ex_conc, ex_jac])"
    by (simp add: ex_conc_def ex_jac_def GlobalArg_def)
  have s: "sum_list (map arg_size [ex_conc, ex_jac]) = 109"
    by code_simp
  have r0: "format_offset (running_total [ex_conc, ex_jac] 0)
              (work_size_str ''work_size'' ex_opts) = ''0 * work_size''"
    by code_simp
  have r1: "format_offset (running_total [ex_conc, ex_jac] 1)
              (work_size_str ''work_size'' ex_opts) = ''9 * work_size''"
    by code_simp
  have n0: "arg_name ex_conc = ''conc''" and n1: "arg_name ex_jac = ''jac''"
    by (simp_all add: ex_conc_def ex_jac_def GlobalArg_def)
  from working_buffer_offsets_tight[OF p q d, of ex_numpy] obtain offsets where
    run: "get_working_buffer ex_numpy ''work_size'' ex_opts [ex_conc, ex_jac]
            = Inr (sum_list (map arg_size [ex_conc, ex_jac]), offsets)"
    and at: "\<forall>i < length [ex_conc, ex_jac]. offsets (arg_name ([ex_conc, ex_jac] ! i))
          = Some (format_offset (running_total [ex_conc, ex_jac] i)
                    (work_size_str ''work_size'' ex_opts))"
    and apart: "\<forall>n \<ge> 0. \<forall>j < length [ex_conc, ex_jac]. \<forall>i < j.
          running_total [ex_conc, ex_jac] i * n + arg_size ([ex_conc, ex_jac] ! i) * n
            \<le> running_total [ex_conc, ex_jac] j * n"
    by blast
  from at[rule_format, of 0] have o0: "offsets ''conc'' = Some ''0 * work_size''"
    using r0 n0 by simp
  from at[rule_format, of 1] have o1: "offsets ''jac'' = Some ''9 * work_size''"
    using r1 n1 by simp
  from apart[rule_format, of 4 1 0]
  have a: "running_total [ex_conc, ex_jac] 0 * 4 + arg_size ex_conc * 4
             \<le> running_total [ex_conc, ex_jac] 1 * 4"
    by simp
  from p0 p1 q0 q1 d run s o0 o1 a show ?thesis by auto
qed

section \<open>Argument resolution: order of the result\<close>

lemma same_name_loop_set:
  "set (same_name_loop n args acc) = set acc \<union> {x \<in> set args. arg_name x = n}"
  by (induction args arbitrary: acc) auto

lemma same_name_loop_distinct:
  "distinct acc \<Longrightarrow> distinct (same_name_loop n args acc)"
  by (induction args arbitrary: acc) auto

lemma same_name_names:
  "x \<in> set (same_name_loop n args []) \<Longrightarrow> arg_name x = n"
  by (simp add: same_name_loop_set)

lemma py_pop_in: "py_pop xs = Inr a \<Longrightarrow> a \<in> set xs"
  by (auto simp: py_pop_def split: if_splits)

lemma resolve_name_in:
  assumes "resolve_name r args n st = Inr (a, st')"
  shows "a \<in> set (same_name_loop n args [])"
  using assms
  by (auto simp: resolve_name_def Let_def split: if_splits option.splits sum.splits
        dest!: py_pop_in dest: set_remove1_subset[THEN subsetD])

lemma resolve_name_name:
  "resolve_name r args n st = Inr (a, st') \<Longrightarrow> arg_name a = n"
  by (drule resolve_name_in) (rule same_name_names)

lemma scan_names_names:
  "scan_names r args ns kd st = Inr (kd', st') \<Longrightarrow> map arg_name kd' = map arg_name kd @ ns"
proof (induction ns arbitrary: kd st)
  case Nil
  then show ?case by simp
next
  case (Cons n ns)
  from Cons.prems obtain a st1 where
    r: "resolve_name r args n st = Inr (a, st1)"
    and s: "scan_names r args ns (kd @ [a]) st1 = Inr (kd', st')"
    by (auto split: sum.splits)
  from Cons.IH[OF s] resolve_name_name[OF r] show ?case by simp
qed

lemma nameset_of_strict: "sorted_wrt (<) (nameset_of names)"
  unfolding nameset_of_def by (simp add: strict_sorted_iff)

lemma set_nameset_of: "set (nameset_of names) = set names"
  by (simp add: nameset_of_def)

lemma sorted_names_filter:
  "sorted_wrt (<) (map f xs) \<Longrightarrow> sorted_wrt (<) (map f (filter P xs))"
  by (simp add: sorted_wrt_map sorted_wrt_filter)

lemma dedup_temps_names:
  "dedup_temps copy ns acc = Inr t \<Longrightarrow> map tv_name t = map tv_name acc @ ns"
proof (induction ns arbitrary: acc)
  case Nil
  then show ?case by simp
next
  case (Cons n ns)
  from Cons.prems obtain s rest where
    f: "filter (\<lambda>x. tv_name x = n) copy = s # rest"
    and d: "dedup_temps copy ns (acc @ [s]) = Inr t"
    by (auto split: list.splits if_splits)
  from f have "s \<in> set (filter (\<lambda>x. tv_name x = n) copy)" by simp
  then have "tv_name s = n" by simp
  with Cons.IH[OF d] show ?case by simp
qed

lemma hoist_loop_filter:
  "hoist_loop r i ks (local, temps, st) = Inr (local', temps', st')
     \<Longrightarrow> \<exists>P. temps' = filter P temps"
proof (induction ks arbitrary: i local temps st)
  case Nil
  then have "temps' = filter (\<lambda>x. True) temps" by simp
  then show ?case by blast
next
  case (Cons k ks)
  let ?lt = "filter (\<lambda>x. tv_scope x = LOCAL) (map snd (temporary_variables k))"
  show ?case
  proof (cases "?lt = []")
    case True
    with Cons.prems have "hoist_loop r (Suc i) ks (local, temps, st) = Inr (local', temps', st')"
      by simp
    from Cons.IH[OF this] show ?thesis .
  next
    case False
    with Cons.prems obtain k' where
      "hoist_loop r (Suc i) ks (local @ ?lt, filter (\<lambda>x. x \<notin> set ?lt) temps,
          set_list r ((get_list r st)[i := k']) st) = Inr (local', temps', st')"
      by (auto simp: Let_def split: sum.splits)
    from Cons.IH[OF this] obtain P where "temps' = filter P (filter (\<lambda>x. x \<notin> set ?lt) temps)"
      by blast
    then have "temps' = filter (\<lambda>x. x \<notin> set ?lt \<and> P x) temps" by simp
    then show ?thesis by blast
  qed
qed

text \<open>
  C10. Whenever \<open>_process_args\<close> returns, the array arguments, the value
  arguments and the constant temporaries it returns are each in strictly
  ascending order of name (Python's order on \<open>str\<close>), so no name occurs twice,
  and the names of the returned arguments are exactly the names of the
  arguments collected from the kernels and the extra kernel data: the order
  in which the kernels declare them does not matter.
\<close>

theorem process_args_sorted_by_name:
  assumes "process_args g self_k ka use_subkernels = Inr out"
  shows "sorted_wrt (<) (map arg_name (ar_args (fst out)))
       \<and> sorted_wrt (<) (map arg_name (ar_valueargs (fst out)))
       \<and> sorted_wrt (<) (map tv_name (ar_constants (fst out)))
       \<and> set (map arg_name (ar_args (fst out))) \<union> set (map arg_name (ar_valueargs (fst out)))
           = set (map arg_name (collect_args g (processed_kernels g self_k ka use_subkernels)))"
proof -
  obtain r st0 where b: "bind_kernels ka self_k = (r, st0)" by (cases "bind_kernels ka self_k")
  define st1 where "st1 = add_subkernels g use_subkernels r st0"
  define args where "args = collect_args g (get_list r st1)"
  have pk: "processed_kernels g self_k ka use_subkernels = get_list r st1"
    by (simp add: processed_kernels_def b st1_def)
  from assms b obtain kd st2 where
    scan: "scan_names r args (nameset_of (map arg_name args)) [] st1 = Inr (kd, st2)"
    by (auto simp: process_args_def Let_def st1_def args_def split: sum.splits prod.splits)
  define copy where "copy = collect_temps g (get_list r st2)"
  from assms b scan obtain temps where
    dd: "dedup_temps copy (nameset_of (map tv_name copy)) [] = Inr temps"
    by (auto simp: process_args_def Let_def st1_def args_def copy_def split: sum.splits prod.splits)
  from assms b scan dd obtain local temps' st3 where
    hoist: "(if hoist_locals g then hoist_loop r 0 (get_list r st2) ([], temps, st2)
             else Inr ([], temps, st2)) = Inr (local, temps', st3)"
    and out: "out = (\<lparr> ar_args = filter (\<lambda>x. \<not> is_ValueArg x) kd, ar_local = local,
                       ar_readonly = readonly_names (get_list r st2),
                       ar_constants = filter tv_read_only temps',
                       ar_valueargs = filter is_ValueArg kd \<rparr>, r, st3)"
    by (auto simp: process_args_def Let_def st1_def args_def copy_def utils_partition_def
          split: sum.splits prod.splits)
  have kdn: "map arg_name kd = nameset_of (map arg_name args)"
    using scan_names_names[OF scan] by simp
  then have kds: "sorted_wrt (<) (map arg_name kd)" by (simp add: nameset_of_strict)
  have tn: "map tv_name temps = nameset_of (map tv_name copy)"
    using dedup_temps_names[OF dd] by simp
  then have ts: "sorted_wrt (<) (map tv_name temps)" by (simp add: nameset_of_strict)
  have "\<exists>P. temps' = filter P temps"
  proof (cases "hoist_locals g")
    case True
    with hoist show ?thesis by (auto dest: hoist_loop_filter)
  next
    case False
    with hoist have "temps' = filter (\<lambda>x. True) temps" by simp
    then show ?thesis by blast
  qed
  then obtain P where P: "temps' = filter P temps" by blast
  have 1: "sorted_wrt (<) (map arg_name (ar_args (fst out)))"
    unfolding out using kds by (simp add: sorted_names_filter)
  have 2: "sorted_wrt (<) (map arg_name (ar_valueargs (fst out)))"
    unfolding out using kds by (simp add: sorted_names_filter)
  have 3: "sorted_wrt (<) (map tv_name (ar_constants (fst out)))"
    unfolding out P using ts by (simp add: sorted_names_filter)
  have "set (map arg_name (ar_args (fst out))) \<union> set (map arg_name (ar_valueargs (fst out)))
          = set (map arg_name kd)"
    unfolding out by auto
  also have "\<dots> = set (map arg_name args)" by (simp add: kdn set_nameset_of)
  finally have 4: "set (map arg_name (ar_args (fst out))) \<union> set (map arg_name (ar_valueargs (fst out)))
           = set (map arg_name (collect_args g (processed_kernels g self_k ka use_subkernels)))"
    by (simp add: args_def pk)
  from 1 2 3 4 show ?thesis by blast
qed

text \<open>
  A kernel that declares \<open>phi, n, k\<close> and the temporaries \<open>small, big\<close>: the
  result lists \<open>k, phi\<close> and \<open>big, small\<close>.
\<close>

theorem process_args_sorted_by_name_witness:
  "process_args ex_gen [ex_knl_unsorted] OwnList True
     = Inr (\<lparr> ar_args = [ex_k_plain, ex_phi], ar_local = [], ar_readonly = {''k''},
              ar_constants = [ex_big, ex_small], ar_valueargs = [ex_n] \<rparr>,
            SelfRef, \<lparr> self_kernels = [ex_knl_unsorted], other_kernels = [] \<rparr>)
   \<and> sorted_wrt (<) (map arg_name [ex_k_plain, ex_phi])
   \<and> sorted_wrt (<) (map tv_name [ex_big, ex_small])
   \<and> map arg_name (knl_args ex_knl_unsorted) = [''phi'', ''n'', ''k'']"
proof -
  have run: "process_args ex_gen [ex_knl_unsorted] OwnList True
     = Inr (\<lparr> ar_args = [ex_k_plain, ex_phi], ar_local = [], ar_readonly = {''k''},
              ar_constants = [ex_big, ex_small], ar_valueargs = [ex_n] \<rparr>,
            SelfRef, \<lparr> self_kernels = [ex_knl_unsorted], other_kernels = [] \<rparr>)"
    by code_simp
  have decl: "map arg_name (knl_args ex_knl_unsorted) = [''phi'', ''n'', ''k'']"
    by code_simp
  from process_args_sorted_by_name[OF run] run decl show ?thesis by simp
qed

section \<open>Argument resolution: conflicts\<close>

text \<open>
  C2. The claim is that the atomic variant is kept as the canonical argument
  and that afterwards no kernel of the collection uses the non-atomic one. The
  caller passes the kernels \<open>rates\<close> (atomic \<open>k\<close>) and \<open>copy\<close> (plain \<open>k\<close>) in
  a list of its own. The atomic variant becomes the canonical argument, but
  the rewriting loop runs over \<open>self.kernels\<close>, which holds neither kernel:
  after the call \<open>copy\<close> still has the plain \<open>k\<close>.
\<close>

theorem process_args_keeps_plain_variant:
  "process_args ex_gen [ex_knl_own] (PassedList [ex_knl_atomic, ex_knl_plain]) True
     = Inr (\<lparr> ar_args = [ex_k_atomic], ar_local = [], ar_readonly = {},
              ar_constants = [], ar_valueargs = [] \<rparr>,
            OtherRef,
            \<lparr> self_kernels = [ex_knl_own], other_kernels = [ex_knl_atomic, ex_knl_plain] \<rparr>)"
  by code_simp

text \<open>
  When the caller passes \<open>self.kernels\<close> itself, the same two kernels are
  rewritten: both use the atomic \<open>k\<close> afterwards.
\<close>

lemma process_args_own_list_rewrites:
  "process_args ex_gen [ex_knl_atomic, ex_knl_plain] OwnList True
     = Inr (\<lparr> ar_args = [ex_k_atomic], ar_local = [], ar_readonly = {},
              ar_constants = [], ar_valueargs = [] \<rparr>,
            SelfRef,
            \<lparr> self_kernels = [ex_knl_atomic, ex_knl_plain\<lparr>knl_args := [ex_k_atomic]\<rparr>],
              other_kernels = [] \<rparr>)"
  by code_simp

text \<open>
  C3. The claim is that arguments of one name that differ in more than
  atomicity raise the error that names the conflicting variants. The collected
  arguments hold \<open>z\<close> with two shapes, and \<open>k\<close> in its plain and atomic
  variants. \<open>k\<close> is resolved first; the generator's third own kernel uses the
  plain \<open>k\<close>, the list \<open>kernels\<close> has two entries, and the assignment
  \<open>kernels[2] = ...\<close> fails with \<open>IndexError\<close> before \<open>z\<close> is looked at.
\<close>

theorem process_args_conflict_preempted:
  "process_args ex_gen_dep [ex_knl_own, ex_knl_own, ex_knl_plain] (PassedList [ex_knl_passed]) True
     = Inl IndexError"
  by code_simp

text \<open>With \<open>self.kernels\<close> as the list, the conflict on \<open>z\<close> is reported.\<close>

lemma process_args_conflict_reported:
  "process_args ex_gen_dep [ex_knl_passed] OwnList True = Inl (CannotResolveArgs [ex_z3, ex_z4])"
  by code_simp

section \<open>Argument resolution: what a conflict raises\<close>

lemma py_next_None: "py_next P xs = None \<longleftrightarrow> (\<forall>x \<in> set xs. \<not> P x)"
  by (induction xs) auto

lemma py_next_Some: "py_next P xs = Some x \<Longrightarrow> x \<in> set xs \<and> P x"
  by (induction xs) (auto split: if_splits)

lemma resolve_name_conflicting:
  assumes "conflicting args n"
  shows "resolve_name r args n st = Inl (CannotResolveArgs (same_name_loop n args []))"
proof -
  let ?sn = "same_name_loop n args []"
  have s: "set ?sn = {x \<in> set args. arg_name x = n}" by (simp add: same_name_loop_set)
  have d: "distinct ?sn" by (rule same_name_loop_distinct) simp
  have len: "length ?sn = card {x \<in> set args. arg_name x = n}"
    using d s distinct_card[of ?sn] by simp
  show ?thesis
  proof (cases "2 < length ?sn")
    case True
    then show ?thesis by (auto simp: resolve_name_def Let_def split: option.splits)
  next
    case False
    with assms len obtain a b where ab: "a \<in> set ?sn" "b \<in> set ?sn" "atomify a \<noteq> atomify b"
      by (auto simp: conflicting_def s)
    then have "a \<noteq> b" by auto
    with ab d have l1: "length ?sn \<noteq> 1"
      by (cases ?sn) auto
    show ?thesis
    proof (cases "py_next (\<lambda>x. is_atomic (arg_dtype x)) ?sn")
      case None
      with l1 show ?thesis by (simp add: resolve_name_def Let_def)
    next
      case (Some atomic)
      show ?thesis
      proof (cases "py_next (\<lambda>x. x \<noteq> atomic) ?sn")
        case None
        then have "\<forall>x \<in> set ?sn. x = atomic" by (simp add: py_next_None)
        then have "a = atomic" and "b = atomic" using ab(1,2) by (metis, metis)
        with \<open>a \<noteq> b\<close> show ?thesis by simp
      next
        case other: (Some other)
        from py_next_Some[OF Some] have at: "atomic \<in> set ?sn" by simp
        from py_next_Some[OF other] have ot: "other \<in> set ?sn" "other \<noteq> atomic" by simp_all
        from False have "length ?sn \<le> 2" by simp
        with d at ot have "set ?sn = {atomic, other}"
        proof -
          have "card (set ?sn) \<le> 2" using \<open>length ?sn \<le> 2\<close> d by (simp add: distinct_card)
          moreover have "{atomic, other} \<subseteq> set ?sn" using at ot by simp
          moreover have "card {atomic, other} = 2" using ot by simp
          ultimately show ?thesis
            by (metis card_seteq List.finite_set)
        qed
        with ab have "(a = atomic \<and> b = other) \<or> (a = other \<and> b = atomic)"
          using \<open>a \<noteq> b\<close> by auto
        with ab(3) ot(2) have "\<not> compare_args other atomic"
          by (auto simp: compare_args_def)
        with l1 Some other False show ?thesis
          by (simp add: resolve_name_def Let_def)
      qed
    qed
  qed
qed

lemma scan_names_conflicting:
  assumes "\<exists>n \<in> set ns. conflicting args n"
  shows "\<exists>e. scan_names r args ns kd st = Inl e"
  using assms
proof (induction ns arbitrary: kd st)
  case Nil
  then show ?case by simp
next
  case (Cons n ns)
  show ?case
  proof (cases "resolve_name r args n st")
    case (Inl e)
    then show ?thesis by simp
  next
    case (Inr p)
    obtain a st' where p: "p = (a, st')" by (cases p)
    from Inr resolve_name_conflicting[of args n r st] have "\<not> conflicting args n" by auto
    with Cons.prems have "\<exists>n \<in> set ns. conflicting args n" by auto
    from Cons.IH[OF this, of "kd @ [a]" st'] Inr p show ?thesis by simp
  qed
qed

text \<open>
  A name with variants that differ in more than atomicity, or with more than
  two variants, makes \<open>_process_args\<close> fail, whatever list the caller passes.
\<close>

lemma process_args_conflict_raises:
  assumes "conflicting (collect_args g (processed_kernels g self_k ka use_subkernels)) n"
  shows "\<exists>e. process_args g self_k ka use_subkernels = Inl e"
proof -
  obtain r st0 where b: "bind_kernels ka self_k = (r, st0)" by (cases "bind_kernels ka self_k")
  define st1 where "st1 = add_subkernels g use_subkernels r st0"
  let ?args = "collect_args g (get_list r st1)"
  have pk: "processed_kernels g self_k ka use_subkernels = get_list r st1"
    by (simp add: processed_kernels_def b st1_def)
  from assms have c: "conflicting ?args n" by (simp add: pk)
  have "{x \<in> set ?args. arg_name x = n} \<noteq> {}"
  proof
    assume e: "{x \<in> set ?args. arg_name x = n} = {}"
    from c consider
      (differ) a where "a \<in> set ?args" "arg_name a = n"
      | (many) "2 < card {x \<in> set ?args. arg_name x = n}"
      unfolding conflicting_def by blast
    then show False
    proof cases
      case differ
      then have "a \<in> {x \<in> set ?args. arg_name x = n}" by simp
      with e show False by blast
    next
      case many
      then show False unfolding e by simp
    qed
  qed
  then have "n \<in> set (nameset_of (map arg_name ?args))"
    by (auto simp: set_nameset_of)
  with c have "\<exists>m \<in> set (nameset_of (map arg_name ?args)). conflicting ?args m" by blast
  from scan_names_conflicting[OF this, of r "[]" st1] obtain e where
    "scan_names r ?args (nameset_of (map arg_name ?args)) [] st1 = Inl e" by blast
  then show ?thesis
    by (simp add: process_args_def b Let_def st1_def)
qed

lemma replace_other_lengths:
  assumes "i + length ks \<le> length (get_list r st)"
  shows "\<exists>st'. replace_other other atomic r i ks st = Inr st'
           \<and> length (get_list r st') = length (get_list r st)
           \<and> length (self_kernels st') = length (self_kernels st)"
  using assms
proof (induction ks arbitrary: i st)
  case Nil
  then show ?case by simp
next
  case (Cons k ks)
  let ?st = "set_list r ((get_list r st)
      [i := k\<lparr>knl_args := map (\<lambda>x. if x \<noteq> other then x else atomic) (knl_args k)\<rparr>]) st"
  have l: "length (get_list r ?st) = length (get_list r st)"
    and s: "length (self_kernels ?st) = length (self_kernels st)"
    by (cases r; simp)+
  from Cons.prems have i: "i < length (get_list r st)" and n: "Suc i + length ks \<le> length (get_list r st)"
    by simp_all
  show ?case
  proof (cases "other \<in> set (knl_args k)")
    case True
    from n l have "Suc i + length ks \<le> length (get_list r ?st)" by simp
    from Cons.IH[OF this] True i l s show ?thesis by simp
  next
    case False
    from Cons.IH[OF n] False show ?thesis by simp
  qed
qed

lemma atomify_plain_inj:
  assumes "\<not> is_atomic (arg_dtype a)" and "\<not> is_atomic (arg_dtype b)" and "atomify a = atomify b"
  shows "a = b"
proof -
  obtain c1 n1 d1 s1 where a: "a = KernelArgument c1 n1 d1 s1" by (cases a)
  obtain c2 n2 d2 s2 where b: "b = KernelArgument c2 n2 d2 s2" by (cases b)
  from assms show ?thesis unfolding a b
    by (cases d1; cases d2) (simp_all add: atomify_def to_atomic_def)
qed

lemma resolve_name_error:
  assumes inv: "length (self_kernels st) \<le> length (get_list r st)"
    and err: "resolve_name r args n st = Inl e"
    and occurs: "n \<in> arg_name ` set args"
  shows "e = CannotResolveArgs (same_name_loop n args []) \<and> conflicting args n"
proof -
  let ?sn = "same_name_loop n args []"
  have s: "set ?sn = {x \<in> set args. arg_name x = n}" by (simp add: same_name_loop_set)
  have d: "distinct ?sn" by (rule same_name_loop_distinct) simp
  have len: "length ?sn = card {x \<in> set args. arg_name x = n}"
    using d s distinct_card[of ?sn] by simp
  have many: "conflicting args n" if "2 < length ?sn"
    using that len by (simp add: conflicting_def)
  show ?thesis
  proof (cases "length ?sn = 1")
    case True
    then have "?sn \<noteq> []" by auto
    with True err show ?thesis by (simp add: resolve_name_def py_pop_def)
  next
    case l1: False
    show ?thesis
    proof (cases "py_next (\<lambda>x. is_atomic (arg_dtype x)) ?sn")
      case None
      with l1 err have e: "e = CannotResolveArgs ?sn" by (simp add: resolve_name_def)
      have "conflicting args n"
      proof (cases ?sn)
        case Nil
        with s occurs show ?thesis by auto
      next
        case (Cons a rest)
        with l1 obtain b rest' where r: "rest = b # rest'" by (cases rest) auto
        with Cons d have ab: "a \<noteq> b" "a \<in> set ?sn" "b \<in> set ?sn" by auto
        from None ab have "\<not> is_atomic (arg_dtype a)" "\<not> is_atomic (arg_dtype b)"
          by (auto simp: py_next_None)
        with ab(1) have "atomify a \<noteq> atomify b" using atomify_plain_inj by blast
        with ab(2,3) show ?thesis unfolding conflicting_def s by blast
      qed
      with e show ?thesis by simp
    next
      case (Some atomic)
      show ?thesis
      proof (cases "2 < length ?sn")
        case True
        with l1 Some err have "e = CannotResolveArgs ?sn" by (simp add: resolve_name_def)
        with many[OF True] show ?thesis by simp
      next
        case l2: False
        from py_next_Some[OF Some] have at: "atomic \<in> set ?sn" by simp
        show ?thesis
        proof (cases "py_next (\<lambda>x. x \<noteq> atomic) ?sn")
          case None
          then have "set ?sn \<subseteq> {atomic}" by (auto simp: py_next_None)
          with at have "set ?sn = {atomic}" by auto
          with d have "length ?sn = 1" using distinct_card[of ?sn] by simp
          with l1 show ?thesis by simp
        next
          case other: (Some other)
          from py_next_Some[OF other] have ot: "other \<in> set ?sn" "other \<noteq> atomic" by simp_all
          show ?thesis
          proof (cases "compare_args other atomic")
            case False
            with l1 l2 Some other err have e: "e = CannotResolveArgs ?sn"
              by (simp add: resolve_name_def)
            from False have "atomify other \<noteq> atomify atomic" by (simp add: compare_args_def)
            with ot(1) at have "conflicting args n" unfolding conflicting_def s by blast
            with e show ?thesis by simp
          next
            case True
            from replace_other_lengths[of 0 "self_kernels st" r st other atomic] inv
            obtain st' where ro: "replace_other other atomic r 0 (self_kernels st) st = Inr st'"
              by auto
            from at ot have "atomic \<in> set (remove1 other ?sn)" by simp
            then have "remove1 other ?sn \<noteq> []" by auto
            with l1 l2 Some other True ro err show ?thesis
              by (simp add: resolve_name_def py_pop_def)
          qed
        qed
      qed
    qed
  qed
qed

lemma resolve_name_keeps_lengths:
  assumes inv: "length (self_kernels st) \<le> length (get_list r st)"
    and ok: "resolve_name r args n st = Inr (a, st')"
  shows "length (self_kernels st') \<le> length (get_list r st')"
proof -
  from replace_other_lengths[of 0 "self_kernels st" r st] inv
  have "\<And>other atomic st''. replace_other other atomic r 0 (self_kernels st) st = Inr st''
          \<Longrightarrow> length (self_kernels st'') \<le> length (get_list r st'')"
    by (metis add_0 sum.inject(2))
  with ok inv show ?thesis
    by (auto simp: resolve_name_def Let_def split: if_splits option.splits sum.splits)
qed

lemma scan_names_error:
  assumes "length (self_kernels st) \<le> length (get_list r st)"
    and "scan_names r args ns kd st = Inl e"
    and "set ns \<subseteq> arg_name ` set args"
  shows "\<exists>m \<in> set ns. e = CannotResolveArgs (same_name_loop m args []) \<and> conflicting args m"
  using assms
proof (induction ns arbitrary: kd st)
  case Nil
  then show ?case by simp
next
  case (Cons n ns)
  show ?case
  proof (cases "resolve_name r args n st")
    case (Inl e')
    with Cons.prems(2) have "e' = e" by simp
    moreover from Cons.prems(3) have "n \<in> arg_name ` set args" by simp
    ultimately show ?thesis using resolve_name_error[OF Cons.prems(1) Inl] by simp
  next
    case (Inr p)
    obtain a st' where p: "p = (a, st')" by (cases p)
    from resolve_name_keeps_lengths[OF Cons.prems(1) Inr[unfolded p]]
    have inv': "length (self_kernels st') \<le> length (get_list r st')" .
    from Cons.prems(2) Inr p have "scan_names r args ns (kd @ [a]) st' = Inl e" by simp
    moreover from Cons.prems(3) have "set ns \<subseteq> arg_name ` set args" by simp
    ultimately show ?thesis using Cons.IH[OF inv'] by auto
  qed
qed

text \<open>
  When \<open>kernels\<close> is \<open>self.kernels\<close>, or at least as long as it, a conflict is
  reported by the exception that holds the variants of a conflicting name.
\<close>

lemma process_args_conflict_named:
  assumes c: "conflicting (collect_args g (processed_kernels g self_k ka use_subkernels)) n"
    and cover: "ka = OwnList \<or> length self_k \<le> length (processed_kernels g self_k ka use_subkernels)"
  shows "\<exists>m. conflicting (collect_args g (processed_kernels g self_k ka use_subkernels)) m
           \<and> process_args g self_k ka use_subkernels
               = Inl (CannotResolveArgs
                   (same_name_loop m (collect_args g (processed_kernels g self_k ka use_subkernels)) []))"
proof -
  obtain r st0 where b: "bind_kernels ka self_k = (r, st0)" by (cases "bind_kernels ka self_k")
  define st1 where "st1 = add_subkernels g use_subkernels r st0"
  let ?args = "collect_args g (get_list r st1)"
  have pk: "processed_kernels g self_k ka use_subkernels = get_list r st1"
    by (simp add: processed_kernels_def b st1_def)
  have inv: "length (self_kernels st1) \<le> length (get_list r st1)"
  proof (cases ka)
    case OwnList
    with b show ?thesis
      by (cases "self_k = []") (auto simp: bind_kernels_def st1_def add_subkernels_def)
  next
    case (PassedList ks)
    with cover[unfolded pk] have "length self_k \<le> length (get_list r st1)" by simp
    moreover from PassedList b have "self_kernels st1 = self_k"
      by (cases "ks = []") (auto simp: bind_kernels_def st1_def add_subkernels_def)
    ultimately show ?thesis by simp
  qed
  from process_args_conflict_raises[OF c] obtain e where
    e: "process_args g self_k ka use_subkernels = Inl e" by blast
  have sc: "scan_names r ?args (nameset_of (map arg_name ?args)) [] st1 = Inl e"
  proof (cases "scan_names r ?args (nameset_of (map arg_name ?args)) [] st1")
    case (Inl e')
    with e show ?thesis by (simp add: process_args_def b Let_def st1_def)
  next
    case (Inr p)
    from c have cn: "conflicting ?args n" by (simp add: pk)
    have "n \<in> arg_name ` set ?args"
    proof (rule ccontr)
      assume "n \<notin> arg_name ` set ?args"
      then have "{x \<in> set ?args. arg_name x = n} = {}" by auto
      with cn show False unfolding conflicting_def by auto
    qed
    then have "n \<in> set (nameset_of (map arg_name ?args))" by (simp add: set_nameset_of)
    with cn have "\<exists>m \<in> set (nameset_of (map arg_name ?args)). conflicting ?args m" by blast
    from scan_names_conflicting[OF this, of r "[]" st1] Inr show ?thesis by auto
  qed
  have sub: "set (nameset_of (map arg_name ?args)) \<subseteq> arg_name ` set ?args"
    by (simp add: set_nameset_of)
  from scan_names_error[OF inv sc sub] obtain m where
    "e = CannotResolveArgs (same_name_loop m ?args [])" and "conflicting ?args m" by blast
  with e show ?thesis unfolding pk by blast
qed

section \<open>Argument resolution: running it twice\<close>

lemma nameset_of_set: "set xs = set ys \<Longrightarrow> nameset_of xs = nameset_of ys"
proof -
  assume "set xs = set ys"
  then have "sorted_list_of_set (set xs) = sorted_list_of_set (set ys)" by simp
  then show ?thesis by (simp add: nameset_of_def sorted_list_of_set_sort_remdups)
qed

lemma same_name_loop_resolved:
  assumes "resolved args" and "x \<in> set args"
  shows "same_name_loop (arg_name x) args [] = [x]"
proof -
  let ?sn = "same_name_loop (arg_name x) args []"
  have s: "set ?sn = {x}"
    using assms by (auto simp: same_name_loop_set resolved_def)
  have d: "distinct ?sn" by (rule same_name_loop_distinct) simp
  from d have "length ?sn = card (set ?sn)" by (simp add: distinct_card)
  with s have "length ?sn = 1" by simp
  then obtain y where "?sn = [y]" by (cases ?sn) auto
  with s show ?thesis by simp
qed

lemma resolve_name_resolved:
  assumes "resolved args" and "x \<in> set args"
  shows "resolve_name r args (arg_name x) st = Inr (x, st)"
  by (simp add: resolve_name_def same_name_loop_resolved[OF assms] py_pop_def)

lemma scan_names_resolved:
  assumes "resolved args" and "set xs \<subseteq> set args"
  shows "scan_names r args (map arg_name xs) kd st = Inr (kd @ xs, st)"
  using assms(2)
proof (induction xs arbitrary: kd)
  case Nil
  then show ?case by simp
next
  case (Cons x xs)
  then have "x \<in> set args" and "set xs \<subseteq> set args" by auto
  with Cons.IH[of "kd @ [x]"] resolve_name_resolved[OF assms(1), of x r st]
  show ?case by simp
qed

lemma scan_names_subset:
  "scan_names r args ns kd st = Inr (kd', st') \<Longrightarrow> set kd' \<subseteq> set kd \<union> set args"
proof (induction ns arbitrary: kd st)
  case Nil
  then show ?case by auto
next
  case (Cons n ns)
  from Cons.prems obtain a st1 where
    r: "resolve_name r args n st = Inr (a, st1)"
    and s: "scan_names r args ns (kd @ [a]) st1 = Inr (kd', st')"
    by (auto split: sum.splits)
  from resolve_name_in[OF r] have "a \<in> set args" by (simp add: same_name_loop_set)
  with Cons.IH[OF s] show ?case by auto
qed

lemma dedup_temps_set:
  assumes "set copy1 = set copy2"
  shows "dedup_temps copy1 ns acc = Inr t \<Longrightarrow> dedup_temps copy2 ns acc = Inr t"
proof (induction ns arbitrary: acc)
  case Nil
  then show ?case by simp
next
  case (Cons n ns)
  from Cons.prems obtain s rest where
    f: "filter (\<lambda>x. tv_name x = n) copy1 = s # rest"
    and a: "list_all (\<lambda>x. x = s) rest"
    and d: "dedup_temps copy1 ns (acc @ [s]) = Inr t"
    by (auto split: list.splits if_splits simp: list_all_iff)
  have "set (filter (\<lambda>x. tv_name x = n) copy1) = {s}"
    unfolding f using a by (auto simp: list_all_iff)
  then have s2: "set (filter (\<lambda>x. tv_name x = n) copy2) = {s}"
    using assms by simp
  then obtain s' rest' where f2: "filter (\<lambda>x. tv_name x = n) copy2 = s' # rest'"
    by (cases "filter (\<lambda>x. tv_name x = n) copy2") auto
  with s2 have "s' = s" and "list_all (\<lambda>x. x = s) rest'"
    by (auto simp: list_all_iff)
  with f2 Cons.IH[OF d] show ?case by simp
qed

lemma hoist_loop_no_local:
  assumes "no_local_temps ks"
  shows "hoist_loop r i ks s = Inr s"
  using assms
proof (induction ks arbitrary: i)
  case Nil
  then show ?case by simp
next
  case (Cons k ks)
  from Cons.prems have nl: "filter (\<lambda>x. tv_scope x = LOCAL) (map snd (temporary_variables k)) = []"
    and rest: "no_local_temps ks"
    by (auto simp: no_local_temps_def filter_empty_conv)
  obtain l t st where s: "s = (l, t, st)" by (cases s)
  from nl Cons.IH[OF rest, of "Suc i"] show ?case unfolding s by simp
qed

lemma readonly_names_set: "set ks = set ks' \<Longrightarrow> readonly_names ks = readonly_names ks'"
  by (auto simp: readonly_names_def)

lemma collect_args_set: "set ks = set ks' \<Longrightarrow> set (collect_args g ks) = set (collect_args g ks')"
  by (auto simp: collect_args_def)

lemma collect_temps_set: "set ks = set ks' \<Longrightarrow> set (collect_temps g ks) = set (collect_temps g ks')"
  by (auto simp: collect_temps_def)

lemma resolved_set: "set xs = set ys \<Longrightarrow> resolved xs = resolved ys"
  by (simp add: resolved_def)

lemma no_local_temps_set: "set ks = set ks' \<Longrightarrow> no_local_temps ks = no_local_temps ks'"
  by (simp add: no_local_temps_def)

lemma process_args_resolved_intro:
  assumes b: "bind_kernels ka self_k = (r, st0)"
    and st1: "st1 = add_subkernels g use_subkernels r st0"
    and res: "resolved (collect_args g (get_list r st1))"
    and nl: "hoist_locals g \<longrightarrow> no_local_temps (get_list r st1)"
    and kd: "set kd \<subseteq> set (collect_args g (get_list r st1))"
    and kdn: "map arg_name kd = nameset_of (map arg_name (collect_args g (get_list r st1)))"
    and dd: "dedup_temps (collect_temps g (get_list r st1))
               (nameset_of (map tv_name (collect_temps g (get_list r st1)))) [] = Inr temps"
  shows "process_args g self_k ka use_subkernels
           = Inr (partition_of kd (get_list r st1) temps, r, st1)"
proof -
  let ?args = "collect_args g (get_list r st1)"
  have scan: "scan_names r ?args (nameset_of (map arg_name ?args)) [] st1 = Inr (kd, st1)"
    using scan_names_resolved[OF res kd, of r "[]" st1] kdn by simp
  have hoist: "(if hoist_locals g then hoist_loop r 0 (get_list r st1) ([], temps, st1)
                else Inr ([], temps, st1)) = Inr ([], temps, st1)"
    using nl by (simp add: hoist_loop_no_local)
  show ?thesis
    unfolding process_args_def b
    by (simp add: Let_def st1[symmetric] scan dd hoist utils_partition_def partition_of_def)
qed

lemma process_args_resolved_elim:
  assumes run: "process_args g self_k ka use_subkernels = Inr out"
    and b: "bind_kernels ka self_k = (r, st0)"
    and st1: "st1 = add_subkernels g use_subkernels r st0"
    and res: "resolved (collect_args g (get_list r st1))"
    and nl: "hoist_locals g \<longrightarrow> no_local_temps (get_list r st1)"
  shows "\<exists>kd temps. set kd \<subseteq> set (collect_args g (get_list r st1))
      \<and> map arg_name kd = nameset_of (map arg_name (collect_args g (get_list r st1)))
      \<and> dedup_temps (collect_temps g (get_list r st1))
               (nameset_of (map tv_name (collect_temps g (get_list r st1)))) [] = Inr temps
      \<and> out = (partition_of kd (get_list r st1) temps, r, st1)"
proof -
  let ?args = "collect_args g (get_list r st1)"
  from run b obtain kd st2 where
    scan: "scan_names r ?args (nameset_of (map arg_name ?args)) [] st1 = Inr (kd, st2)"
    by (auto simp: process_args_def Let_def st1 split: sum.splits prod.splits)
  have kdn: "map arg_name kd = nameset_of (map arg_name ?args)"
    using scan_names_names[OF scan] by simp
  have kds: "set kd \<subseteq> set ?args"
    using scan_names_subset[OF scan] by simp
  from scan_names_resolved[OF res kds, of r "[]" st1] kdn scan have st2: "st2 = st1" by simp
  from run b scan obtain temps where
    dd: "dedup_temps (collect_temps g (get_list r st1))
               (nameset_of (map tv_name (collect_temps g (get_list r st1)))) [] = Inr temps"
    by (auto simp: process_args_def Let_def st1[symmetric] st2 split: sum.splits prod.splits)
  from process_args_resolved_intro[OF b st1 res nl kds kdn dd] run
  have "out = (partition_of kd (get_list r st1) temps, r, st1)" by simp
  with kds kdn dd show ?thesis by blast
qed


lemma rerun_kernels:
  assumes b: "bind_kernels ka self_k = (r, st0)"
    and st1: "st1 = add_subkernels g use_subkernels r st0"
  shows "\<exists>r2 st0'. bind_kernels (rerun_arg ka (get_list r st1)) (self_kernels st1) = (r2, st0')
      \<and> set (get_list r2 (add_subkernels g use_subkernels r2 st0')) = set (get_list r st1)"
proof (cases ka)
  case OwnList
  show ?thesis
  proof (cases "self_k = []")
    case True
    with OwnList b st1 show ?thesis
      by (auto simp: bind_kernels_def add_subkernels_def rerun_arg_def)
  next
    case False
    with OwnList b st1 show ?thesis
      by (auto simp: bind_kernels_def add_subkernels_def rerun_arg_def)
  qed
next
  case (PassedList ks)
  show ?thesis
  proof (cases "ks = []")
    case True
    with PassedList b st1 show ?thesis
      by (auto simp: bind_kernels_def add_subkernels_def rerun_arg_def)
  next
    case False
    with PassedList b st1 show ?thesis
      by (auto simp: bind_kernels_def add_subkernels_def rerun_arg_def)
  qed
qed

text \<open>
  C9, as amended. For kernels whose collected arguments are already resolved
  (no name has two variants), and unless the generator hoists locals and a
  kernel declares a temporary of local scope: when \<open>_process_args\<close> returns, a
  second call on the kernels the first one left returns as well, with the same
  global arguments, local temporaries, read-only names, constant temporaries
  and value arguments.
\<close>

theorem process_args_idempotent:
  assumes run: "process_args g self_k ka use_subkernels = Inr out"
    and res: "resolved (collect_args g (processed_kernels g self_k ka use_subkernels))"
    and nl: "hoist_locals g \<longrightarrow> no_local_temps (processed_kernels g self_k ka use_subkernels)"
  shows "process_args_twice g self_k ka use_subkernels = Inr (fst out, fst out)"
proof -
  obtain r st0 where b: "bind_kernels ka self_k = (r, st0)" by (cases "bind_kernels ka self_k")
  define st1 where "st1 = add_subkernels g use_subkernels r st0"
  let ?K = "get_list r st1"
  have pk: "processed_kernels g self_k ka use_subkernels = ?K"
    by (simp add: processed_kernels_def b st1_def)
  from process_args_resolved_elim[OF run b st1_def res[unfolded pk] nl[unfolded pk]]
  obtain kd temps where
    kds: "set kd \<subseteq> set (collect_args g ?K)"
    and kdn: "map arg_name kd = nameset_of (map arg_name (collect_args g ?K))"
    and dd: "dedup_temps (collect_temps g ?K) (nameset_of (map tv_name (collect_temps g ?K))) []
               = Inr temps"
    and out: "out = (partition_of kd ?K temps, r, st1)"
    by blast
  from rerun_kernels[OF b st1_def] obtain r2 st0' where
    b2: "bind_kernels (rerun_arg ka ?K) (self_kernels st1) = (r2, st0')"
    and K2: "set (get_list r2 (add_subkernels g use_subkernels r2 st0')) = set ?K"
    by blast
  define st1' where "st1' = add_subkernels g use_subkernels r2 st0'"
  let ?K2 = "get_list r2 st1'"
  have sK: "set ?K2 = set ?K" using K2 by (simp add: st1'_def)
  have sa: "set (collect_args g ?K2) = set (collect_args g ?K)"
    by (rule collect_args_set[OF sK])
  have st: "set (collect_temps g ?K2) = set (collect_temps g ?K)"
    by (rule collect_temps_set[OF sK])
  have res2: "resolved (collect_args g ?K2)"
    using res[unfolded pk] resolved_set[OF sa] by simp
  have nl2: "hoist_locals g \<longrightarrow> no_local_temps ?K2"
    using nl[unfolded pk] no_local_temps_set[OF sK] by simp
  have kds2: "set kd \<subseteq> set (collect_args g ?K2)" using kds sa by simp
  have "set (map arg_name (collect_args g ?K2)) = set (map arg_name (collect_args g ?K))"
    using sa by simp
  from nameset_of_set[OF this] kdn
  have kdn2: "map arg_name kd = nameset_of (map arg_name (collect_args g ?K2))" by simp
  have "set (map tv_name (collect_temps g ?K2)) = set (map tv_name (collect_temps g ?K))"
    using st by simp
  from nameset_of_set[OF this] dedup_temps_set[OF st[symmetric] dd]
  have dd2: "dedup_temps (collect_temps g ?K2) (nameset_of (map tv_name (collect_temps g ?K2))) []
               = Inr temps" by simp
  from process_args_resolved_intro[OF b2 st1'_def res2 nl2 kds2 kdn2 dd2]
  have run2: "process_args g (self_kernels st1) (rerun_arg ka ?K) use_subkernels
                = Inr (partition_of kd ?K2 temps, r2, st1')" .
  have same: "partition_of kd ?K2 temps = partition_of kd ?K temps"
    using readonly_names_set[OF sK] by (simp add: partition_of_def)
  show ?thesis
    unfolding process_args_twice_def run
    by (simp add: out kernels_after_def run2 same)
qed

text \<open>
  A generator that hoists locals and a kernel with the local buffer \<open>lbuf\<close>:
  the first call returns \<open>lbuf\<close> as local temporary and turns it into an
  argument of the kernel; the second call returns it among the arguments (and
  the read-only names), and no local temporary.
\<close>

theorem process_args_hoisting_not_idempotent:
  "process_args_twice ex_gen_hoist [ex_knl_local] OwnList True
     = Inr (\<lparr> ar_args = [ex_phi], ar_local = [ex_lbuf], ar_readonly = {},
              ar_constants = [], ar_valueargs = [] \<rparr>,
            \<lparr> ar_args = [argify ex_lbuf, ex_phi], ar_local = [], ar_readonly = {''lbuf''},
              ar_constants = [], ar_valueargs = [] \<rparr>)"
  by code_simp

text \<open>
  A hoisting generator with a dependency and no local temporary: the second
  call sees the kernel of the dependency twice and returns the same partition.
\<close>

theorem process_args_idempotent_witness:
  "process_args ex_gen_with_dep [ex_knl_unsorted] OwnList True
     = Inr (\<lparr> ar_args = [ex_k_plain, ex_phi], ar_local = [], ar_readonly = {''k''},
              ar_constants = [ex_big, ex_small], ar_valueargs = [ex_n] \<rparr>,
            SelfRef, \<lparr> self_kernels = [ex_knl_unsorted, ex_knl_plain], other_kernels = [] \<rparr>)
   \<and> resolved (collect_args ex_gen_with_dep
        (processed_kernels ex_gen_with_dep [ex_knl_unsorted] OwnList True))
   \<and> hoist_locals ex_gen_with_dep
   \<and> no_local_temps (processed_kernels ex_gen_with_dep [ex_knl_unsorted] OwnList True)
   \<and> process_args_twice ex_gen_with_dep [ex_knl_unsorted] OwnList True
     = Inr (\<lparr> ar_args = [ex_k_plain, ex_phi], ar_local = [], ar_readonly = {''k''},
              ar_constants = [ex_big, ex_small], ar_valueargs = [ex_n] \<rparr>,
            \<lparr> ar_args = [ex_k_plain, ex_phi], ar_local = [], ar_readonly = {''k''},
              ar_constants = [ex_big, ex_small], ar_valueargs = [ex_n] \<rparr>)"
proof -
  have run: "process_args ex_gen_with_dep [ex_knl_unsorted] OwnList True
     = Inr (\<lparr> ar_args = [ex_k_plain, ex_phi], ar_local = [], ar_readonly = {''k''},
              ar_constants = [ex_big, ex_small], ar_valueargs = [ex_n] \<rparr>,
            SelfRef, \<lparr> self_kernels = [ex_knl_unsorted, ex_knl_plain], other_kernels = [] \<rparr>)"
    by code_simp
  have res: "resolved (collect_args ex_gen_with_dep
        (processed_kernels ex_gen_with_dep [ex_knl_unsorted] OwnList True))"
    by code_simp
  have h: "hoist_locals ex_gen_with_dep"
    by (simp add: ex_gen_with_dep_def)
  have nl: "no_local_temps (processed_kernels ex_gen_with_dep [ex_knl_unsorted] OwnList True)"
    by code_simp
  from process_args_idempotent[OF run res] nl
  have "process_args_twice ex_gen_with_dep [ex_knl_unsorted] OwnList True
     = Inr (\<lparr> ar_args = [ex_k_plain, ex_phi], ar_local = [], ar_readonly = {''k''},
              ar_constants = [ex_big, ex_small], ar_valueargs = [ex_n] \<rparr>,
            \<lparr> ar_args = [ex_k_plain, ex_phi], ar_local = [], ar_readonly = {''k''},
              ar_constants = [ex_big, ex_small], ar_valueargs = [ex_n] \<rparr>)"
    by simp
  with run res h nl show ?thesis by simp
qed

section \<open>Argument resolution: rewriting to the atomic variant\<close>

lemma replace_other_self:
  assumes "self_kernels st = pre @ ks" and "length pre = i"
  shows "replace_other other atomic SelfRef i ks st
           = Inr (st\<lparr>self_kernels := pre @ map (use_atomic other atomic) ks\<rparr>)"
  using assms
proof (induction ks arbitrary: i pre st)
  case Nil
  then show ?case by simp
next
  case (Cons k ks)
  let ?k' = "k\<lparr>knl_args := map (\<lambda>x. if x \<noteq> other then x else atomic) (knl_args k)\<rparr>"
  show ?case
  proof (cases "other \<in> set (knl_args k)")
    case True
    let ?st = "st\<lparr>self_kernels := (pre @ [?k']) @ ks\<rparr>"
    from Cons.prems have upd: "(self_kernels st)[i := ?k'] = (pre @ [?k']) @ ks"
      by (simp add: list_update_append)
    have "replace_other other atomic SelfRef (Suc i) ks ?st
            = Inr (?st\<lparr>self_kernels := (pre @ [?k']) @ map (use_atomic other atomic) ks\<rparr>)"
      by (rule Cons.IH) (simp_all add: Cons.prems(2))
    with True Cons.prems upd show ?thesis
      by (simp add: use_atomic_def)
  next
    case False
    have "replace_other other atomic SelfRef (Suc i) ks st
            = Inr (st\<lparr>self_kernels := (pre @ [k]) @ map (use_atomic other atomic) ks\<rparr>)"
      by (rule Cons.IH) (simp_all add: Cons.prems)
    with False show ?thesis by (simp add: use_atomic_def)
  qed
qed

lemma atomify_idem: "atomify (atomify a) = atomify a"
  by (simp add: atomify_def to_atomic_def)

lemma atomify_is_atomic: "is_atomic (arg_dtype (atomify a))"
  by (simp add: atomify_def to_atomic_def)

lemma atomify_name: "arg_name (atomify a) = arg_name a"
  by (simp add: atomify_def)

lemma use_atomic_removes:
  "atomic \<noteq> other \<Longrightarrow> other \<notin> set (knl_args (use_atomic other atomic knl))"
  by (auto simp: use_atomic_def)

lemma use_atomic_temps: "temporary_variables (use_atomic other atomic knl) = temporary_variables knl"
  by (simp add: use_atomic_def)

text \<open>The one name with two variants, \<open>other\<close> and its atomic variant.\<close>

lemma resolve_name_pair:
  assumes o: "other \<in> set args" and a: "atomify other \<in> set args"
    and plain: "\<not> is_atomic (arg_dtype other)"
    and only: "\<forall>x \<in> set args. arg_name x = arg_name other \<longrightarrow> x = other \<or> x = atomify other"
  shows "resolve_name SelfRef args (arg_name other) st
           = Inr (atomify other,
                  st\<lparr>self_kernels := map (use_atomic other (atomify other)) (self_kernels st)\<rparr>)"
proof -
  let ?sn = "same_name_loop (arg_name other) args []"
  let ?at = "atomify other"
  have ne: "?at \<noteq> other" using plain atomify_is_atomic[of other] by auto
  have s: "set ?sn = {other, ?at}"
    using o a only by (auto simp: same_name_loop_set atomify_name)
  have d: "distinct ?sn" by (rule same_name_loop_distinct) simp
  from d s ne have len: "length ?sn = 2" using distinct_card[of ?sn] by simp
  then obtain x y where sn: "?sn = [x, y]"
    by (cases ?sn; cases "tl ?sn") auto
  with s d have xy: "(x = other \<and> y = ?at) \<or> (x = ?at \<and> y = other)"
    by (auto simp: doubleton_eq_iff)
  have nx: "py_next (\<lambda>x. is_atomic (arg_dtype x)) ?sn = Some ?at"
    using xy plain atomify_is_atomic[of other] unfolding sn by auto
  have no: "py_next (\<lambda>x. x \<noteq> ?at) ?sn = Some other"
    using xy ne unfolding sn by auto
  have cmp: "compare_args other ?at" by (simp add: compare_args_def atomify_idem)
  have rem: "remove1 other ?sn = [?at]" using xy ne unfolding sn by auto
  have rep: "replace_other other ?at SelfRef 0 (self_kernels st) st
               = Inr (st\<lparr>self_kernels := map (use_atomic other ?at) (self_kernels st)\<rparr>)"
    using replace_other_self[of st "[]" "self_kernels st" 0 other ?at] by simp
  show ?thesis
    by (simp add: resolve_name_def Let_def len nx no cmp rep rem py_pop_def)
qed

lemma resolve_name_single:
  assumes x: "x \<in> set args"
    and single: "\<forall>y \<in> set args. arg_name y = arg_name x \<longrightarrow> y = x"
  shows "resolve_name r args (arg_name x) st = Inr (x, st)"
proof -
  let ?sn = "same_name_loop (arg_name x) args []"
  have s: "set ?sn = {x}" using x single by (auto simp: same_name_loop_set)
  have d: "distinct ?sn" by (rule same_name_loop_distinct) simp
  from d s have "length ?sn = 1" using distinct_card[of ?sn] by simp
  then obtain y where "?sn = [y]" by (cases ?sn) auto
  with s have "?sn = [x]" by simp
  then show ?thesis by (simp add: resolve_name_def py_pop_def)
qed

lemma scan_names_pair:
  assumes o: "other \<in> set args" and a: "atomify other \<in> set args"
    and plain: "\<not> is_atomic (arg_dtype other)"
    and only: "\<forall>x \<in> set args. \<forall>y \<in> set args. arg_name x = arg_name y \<longrightarrow>
                 x = y \<or> (x = other \<and> y = atomify other) \<or> (x = atomify other \<and> y = other)"
    and ns: "distinct ns" "set ns \<subseteq> arg_name ` set args"
  shows "\<exists>kd'. scan_names SelfRef args ns kd st
           = Inr (kd @ kd',
                  if arg_name other \<in> set ns
                  then st\<lparr>self_kernels := map (use_atomic other (atomify other)) (self_kernels st)\<rparr>
                  else st)
         \<and> other \<notin> set kd'
         \<and> (arg_name other \<in> set ns \<longrightarrow> atomify other \<in> set kd')"
  using ns
proof (induction ns arbitrary: kd st)
  case Nil
  then show ?case by simp
next
  case (Cons n ns)
  let ?F = "\<lambda>st. st\<lparr>self_kernels := map (use_atomic other (atomify other)) (self_kernels st)\<rparr>"
  from Cons.prems have dn: "distinct ns" "set ns \<subseteq> arg_name ` set args" "n \<notin> set ns"
    and nin: "n \<in> arg_name ` set args" by auto
  have ne: "atomify other \<noteq> other" using plain atomify_is_atomic[of other] by auto
  show ?case
  proof (cases "n = arg_name other")
    case True
    have only1: "\<forall>x \<in> set args. arg_name x = arg_name other \<longrightarrow> x = other \<or> x = atomify other"
      using only o by blast
    from resolve_name_pair[OF o a plain only1, of st]
    have r: "resolve_name SelfRef args n st = Inr (atomify other, ?F st)" by (simp add: True)
    from Cons.IH[OF dn(1,2), of "kd @ [atomify other]" "?F st"] dn(3) True
    obtain kd' where
      sc: "scan_names SelfRef args ns (kd @ [atomify other]) (?F st)
             = Inr ((kd @ [atomify other]) @ kd', ?F st)"
      and no: "other \<notin> set kd'" by auto
    from r sc no ne True show ?thesis
      by (intro exI[of _ "atomify other # kd'"]) simp
  next
    case False
    from nin obtain x where x: "x \<in> set args" "arg_name x = n" by auto
    have xo: "x \<noteq> other" "x \<noteq> atomify other" using x False by (auto simp: atomify_name)
    have single: "\<forall>y \<in> set args. arg_name y = arg_name x \<longrightarrow> y = x"
    proof (intro ballI impI)
      fix y assume y: "y \<in> set args" "arg_name y = arg_name x"
      from only x(1) y have "x = y \<or> (x = other \<and> y = atomify other) \<or> (x = atomify other \<and> y = other)"
        by metis
      with xo show "y = x" by auto
    qed
    from resolve_name_single[OF x(1) single, of SelfRef st] x(2)
    have r: "resolve_name SelfRef args n st = Inr (x, st)" by simp
    from Cons.IH[OF dn(1,2), of "kd @ [x]" st]
    obtain kd' where
      sc: "scan_names SelfRef args ns (kd @ [x]) st
             = Inr ((kd @ [x]) @ kd',
                    if arg_name other \<in> set ns then ?F st else st)"
      and no: "other \<notin> set kd'"
      and at: "arg_name other \<in> set ns \<longrightarrow> atomify other \<in> set kd'" by blast
    from r sc no at xo False show ?thesis
      by (intro exI[of _ "x # kd'"]) auto
  qed
qed


lemma no_local_temps_use_atomic:
  "no_local_temps ks \<Longrightarrow> no_local_temps (map (use_atomic other atomic) ks)"
  by (simp add: no_local_temps_def use_atomic_temps)

text \<open>
  When the caller passes \<open>self.kernels\<close> itself and exactly two argument
  objects share a name, one the atomic variant of the other, the atomic one is
  the canonical argument and every kernel of the list is rewritten to it.
\<close>

lemma process_args_own_list_atomic:
  assumes nonempty: "self_k \<noteq> []"
    and run: "process_args g self_k OwnList use_subkernels = Inr out"
    and o: "other \<in> set (collect_args g (processed_kernels g self_k OwnList use_subkernels))"
    and a: "atomify other \<in> set (collect_args g (processed_kernels g self_k OwnList use_subkernels))"
    and plain: "\<not> is_atomic (arg_dtype other)"
    and only: "\<forall>x \<in> set (collect_args g (processed_kernels g self_k OwnList use_subkernels)).
               \<forall>y \<in> set (collect_args g (processed_kernels g self_k OwnList use_subkernels)).
                 arg_name x = arg_name y \<longrightarrow>
                 x = y \<or> (x = other \<and> y = atomify other) \<or> (x = atomify other \<and> y = other)"
    and nl: "hoist_locals g \<longrightarrow> no_local_temps (processed_kernels g self_k OwnList use_subkernels)"
  shows "atomify other \<in> set (ar_args (fst out)) \<union> set (ar_valueargs (fst out))
       \<and> other \<notin> set (ar_args (fst out)) \<union> set (ar_valueargs (fst out))
       \<and> kernels_after out
           = map (use_atomic other (atomify other))
               (processed_kernels g self_k OwnList use_subkernels)
       \<and> (\<forall>k \<in> set (kernels_after out). other \<notin> set (knl_args k))"
proof -
  let ?st0 = "\<lparr>self_kernels = self_k, other_kernels = []\<rparr>"
  have b: "bind_kernels OwnList self_k = (SelfRef, ?st0)"
    using nonempty by (simp add: bind_kernels_def)
  define st1 where "st1 = add_subkernels g use_subkernels SelfRef ?st0"
  let ?K = "self_kernels st1"
  let ?args = "collect_args g ?K"
  let ?F = "st1\<lparr>self_kernels := map (use_atomic other (atomify other)) ?K\<rparr>"
  have pk: "processed_kernels g self_k OwnList use_subkernels = ?K"
    by (simp add: processed_kernels_def b st1_def)
  have ne: "atomify other \<noteq> other" using plain atomify_is_atomic[of other] by auto
  have dn: "distinct (nameset_of (map arg_name ?args))"
    using nameset_of_strict[of "map arg_name ?args"] by (simp add: strict_sorted_iff)
  have sub: "set (nameset_of (map arg_name ?args)) \<subseteq> arg_name ` set ?args"
    by (simp add: set_nameset_of)
  have inn: "arg_name other \<in> set (nameset_of (map arg_name ?args))"
    using o by (simp add: set_nameset_of pk)
  from scan_names_pair[OF o[unfolded pk] a[unfolded pk] plain only[unfolded pk] dn sub, of "[]" st1] inn
  obtain kd where
    scan: "scan_names SelfRef ?args (nameset_of (map arg_name ?args)) [] st1 = Inr (kd, ?F)"
    and no: "other \<notin> set kd" and at: "atomify other \<in> set kd"
    by auto
  have nl': "hoist_locals g \<longrightarrow> no_local_temps (self_kernels ?F)"
    using nl by (simp add: pk no_local_temps_use_atomic)
  from run b scan obtain temps where
    dd: "dedup_temps (collect_temps g (self_kernels ?F))
           (nameset_of (map tv_name (collect_temps g (self_kernels ?F)))) [] = Inr temps"
    by (auto simp: process_args_def Let_def st1_def[symmetric] split: sum.splits prod.splits)
  have out: "out = (\<lparr> ar_args = filter (\<lambda>x. \<not> is_ValueArg x) kd, ar_local = [],
                       ar_readonly = readonly_names (self_kernels ?F),
                       ar_constants = filter tv_read_only temps,
                       ar_valueargs = filter is_ValueArg kd \<rparr>, SelfRef, ?F)"
  proof (cases "hoist_locals g")
    case True
    with nl' have "no_local_temps (map (use_atomic other (atomify other)) ?K)" by simp
    with run True scan dd show ?thesis
      unfolding process_args_def b
      by (simp add: Let_def st1_def[symmetric] utils_partition_def hoist_loop_no_local)
  next
    case False
    with run scan dd show ?thesis
      unfolding process_args_def b
      by (simp add: Let_def st1_def[symmetric] utils_partition_def)
  qed
  have 1: "atomify other \<in> set (ar_args (fst out)) \<union> set (ar_valueargs (fst out))"
    using at unfolding out by auto
  have 2: "other \<notin> set (ar_args (fst out)) \<union> set (ar_valueargs (fst out))"
    using no unfolding out by auto
  have 3: "kernels_after out = map (use_atomic other (atomify other)) ?K"
    unfolding out by (simp add: kernels_after_def)
  have 4: "\<forall>k \<in> set (kernels_after out). other \<notin> set (knl_args k)"
    unfolding 3 using use_atomic_removes[OF ne] by auto
  from 1 2 3 4 show ?thesis unfolding pk by blast
qed

section \<open>Barriers\<close>

text \<open>
  C7. The claim is that every barrier is placed directly before the call of
  its \<open>after\<close> kernel, and that the assertion fails unless the instruction in
  front of that place is the call of the \<open>before\<close> kernel. With two
  instructions and the triple (1, 0, global), the barrier goes before the call
  of kernel 0, where no instruction precedes it. The assertion compares with
  \<open>instructions[-1]\<close>, the call of kernel 1, and passes.
\<close>

theorem apply_barriers_first_call:
  "apply_barriers '';'' [(1, 0, ''global'')] [''a();'', ''b();'']
     = Inr [''barrier(CLK_GLOBAL_MEM_FENCE);'', ''a();'', ''b();'']"
  by code_simp

lemma apply_barriers_between:
  "apply_barriers '';'' [(0, 1, ''global'')] [''a();'', ''b();'']
     = Inr [''a();'', ''barrier(CLK_GLOBAL_MEM_FENCE);'', ''b();'']"
  by code_simp

lemma apply_barriers_out_of_order:
  "apply_barriers '';'' [(0, 2, ''global'')] [''a();'', ''b();'', ''c();''] = Inl AssertionError"
  by code_simp

lemma find_insn_less: "find_insn b xs = Some i \<Longrightarrow> i < length xs \<and> fst (xs ! i) = b"
  by (induction xs arbitrary: i) (auto split: if_splits)

lemma insert_barrier_shape:
  assumes "insert_barrier line_end barrier xs = Inr ys"
  shows "\<exists>i template. find_insn (fst (snd barrier)) xs = Some i
           \<and> barrier_templates (snd (snd barrier)) = Some template
           \<and> ys = take i xs @ [(- 1, template @ line_end)] @ drop i xs"
  using assms
  by (auto simp: insert_barrier_def split: option.splits sum.splits if_splits)

lemma insert_barrier_keeps:
  assumes "insert_barrier line_end barrier xs = Inr ys"
  shows "filter (\<lambda>p. fst p \<noteq> - 1) ys = filter (\<lambda>p. fst p \<noteq> - 1) xs"
    and "length (filter (\<lambda>p. fst p = - 1) ys) = Suc (length (filter (\<lambda>p. fst p = - 1) xs))"
proof -
  from insert_barrier_shape[OF assms] obtain i template where
    ys: "ys = take i xs @ [(- 1, template @ line_end)] @ drop i xs" by blast
  have "filter (\<lambda>p. fst p \<noteq> - 1) ys
          = filter (\<lambda>p. fst p \<noteq> - 1) (take i xs) @ filter (\<lambda>p. fst p \<noteq> - 1) (drop i xs)"
    unfolding ys by simp
  also have "\<dots> = filter (\<lambda>p. fst p \<noteq> - 1) (take i xs @ drop i xs)"
    by (simp only: filter_append)
  finally show "filter (\<lambda>p. fst p \<noteq> - 1) ys = filter (\<lambda>p. fst p \<noteq> - 1) xs"
    by (simp only: append_take_drop_id)
  have "length (filter (\<lambda>p. fst p = - 1) ys)
          = Suc (length (filter (\<lambda>p. fst p = - 1) (take i xs @ drop i xs)))"
    unfolding ys by (simp only: filter_append length_append) simp
  then show "length (filter (\<lambda>p. fst p = - 1) ys) = Suc (length (filter (\<lambda>p. fst p = - 1) xs))"
    by simp
qed

lemma insert_barriers_keeps:
  "insert_barriers line_end barriers xs = Inr ys
     \<Longrightarrow> filter (\<lambda>p. fst p \<noteq> - 1) ys = filter (\<lambda>p. fst p \<noteq> - 1) xs
       \<and> length (filter (\<lambda>p. fst p = - 1) ys)
           = length barriers + length (filter (\<lambda>p. fst p = - 1) xs)"
proof (induction barriers arbitrary: xs)
  case Nil
  then show ?case by simp
next
  case (Cons b bs)
  from Cons.prems obtain zs where
    1: "insert_barrier line_end b xs = Inr zs" and 2: "insert_barriers line_end bs zs = Inr ys"
    by (auto split: sum.splits)
  from Cons.IH[OF 2] insert_barrier_keeps[OF 1] show ?case by simp
qed

lemma enumerate_insns_tags: "p \<in> set (enumerate_insns instructions) \<Longrightarrow> 0 \<le> fst p"
  by (auto simp: enumerate_insns_def in_set_zip)

text \<open>
  When the insertion returns, the result holds the original instructions in
  their order and one added statement for every triple.
\<close>

lemma apply_barriers_keeps_instructions:
  assumes "apply_barriers line_end barriers instructions = Inr out"
  shows "\<exists>tagged. out = map snd tagged
           \<and> filter (\<lambda>p. fst p \<noteq> - 1) tagged = enumerate_insns instructions
           \<and> length (filter (\<lambda>p. fst p = - 1) tagged) = length barriers
           \<and> length out = length instructions + length barriers"
proof -
  from assms obtain tagged where
    t: "insert_barriers line_end barriers (enumerate_insns instructions) = Inr tagged"
    and o: "out = map snd tagged"
    by (auto simp: apply_barriers_def split: sum.splits)
  have e1: "filter (\<lambda>p. fst p \<noteq> - 1) (enumerate_insns instructions) = enumerate_insns instructions"
    using enumerate_insns_tags by (intro filter_True) force
  have e2: "filter (\<lambda>p. fst p = - 1) (enumerate_insns instructions) = []"
    using enumerate_insns_tags by (intro filter_False) force
  from insert_barriers_keeps[OF t] e1 e2 have
    k: "filter (\<lambda>p. fst p \<noteq> - 1) tagged = enumerate_insns instructions"
    and n: "length (filter (\<lambda>p. fst p = - 1) tagged) = length barriers"
    by simp_all
  have "length tagged = length (filter (\<lambda>p. fst p \<noteq> - 1) tagged)
                          + length (filter (\<lambda>p. fst p = - 1) tagged)"
    using sum_length_filter_compl[of "\<lambda>p. fst p = - 1" tagged] by simp
  with k n have "length tagged = length instructions + length barriers"
    by (simp add: enumerate_insns_def)
  with o k n show ?thesis by auto
qed

text \<open>
  For an \<open>after\<close> call that is not the first entry, the assertion compares the
  \<open>before\<close> kernel with the entry in front of it.
\<close>

lemma insert_barrier_asserts:
  assumes "find_insn after xs = Some (Suc i)" and "fst (xs ! i) \<noteq> before"
  shows "insert_barrier line_end (before, after, kind) xs = Inl AssertionError"
proof -
  from find_insn_less[OF assms(1)] have "Suc i < length xs" by simp
  then have "py_getitem xs (int (Suc i) - 1) = Inr (xs ! i)"
    by (simp add: py_getitem_def)
  with assms show ?thesis by (simp add: insert_barrier_def)
qed

text \<open>For the first entry it compares with the last entry of the list.\<close>

lemma insert_barrier_wraps:
  assumes "find_insn after xs = Some 0" and "fst (last xs) = before"
    and "barrier_templates kind = Some template"
  shows "insert_barrier line_end (before, after, kind) xs = Inr ((- 1, template @ line_end) # xs)"
proof -
  from find_insn_less[OF assms(1)] have ne: "xs \<noteq> []" by auto
  then have "py_getitem xs (int 0 - 1) = Inr (last xs)"
    by (cases xs rule: rev_cases) (simp_all add: py_getitem_def)
  with assms show ?thesis by (simp add: insert_barrier_def)
qed

section \<open>Specialization\<close>

text \<open>
  A dry run (\<open>get_specialization=True\<close>) on a kernel that cannot be vectorized
  and brings its fix-up function: the function is not run, the call returns
  the tag dictionary only.
\<close>

theorem apply_specialization_dry_run_skips_vecspec:
  "apply_specialization trace_lp ex_can_vectorize_lang ''j'' ex_opts ''i'' [] False
       (Some ex_vecspec) False True
     = Inr (Specialization [''j'' \<mapsto> ''g.0''])"
  by (simp add: apply_specialization_def split_choice_def vector_split_def global_tag_def
        run_vecspec_def width_fix_def unr_ilp_def ex_opts_def ex_can_vectorize_lang_def)

text \<open>
  C8, as amended. For a kernel with \<open>can_vectorize=False\<close> (and a language that
  \<open>utils.can_vectorize_lang\<close> knows): without a fix-up function the call fails
  with the assertion, before any transformation; with one, and when the
  specialization is applied (\<open>get_specialization=False\<close>), the fix-up function
  runs on the kernel, which has received the \<open>g.0\<close> tag but no vectorization
  split; in a dry run nothing is applied and a tag dictionary is returned.
\<close>

theorem apply_specialization_non_vectorizable:
  assumes "\<not> can_vectorize"
    and "can_vectorize_lang (lang loopy_opts) = Some can_vec_lang"
    and "split_choice global_ind loopy_opts inner_ind = (split, i_tag, j_tag)"
  shows "apply_specialization lp can_vectorize_lang global_ind loopy_opts inner_ind knl
             for_testing None can_vectorize get_specialization = Inl AssertionError
       \<and> apply_specialization lp can_vectorize_lang global_ind loopy_opts inner_ind knl
             for_testing (Some vecspec) can_vectorize False
           = Inr (Knl (fst (unr_ilp lp loopy_opts False i_tag
                        (width_fix lp loopy_opts False split
                          (vecspec (if can_vec_lang then tag_inames lp knl [(j_tag, ''g.0'')]
                                    else knl),
                           Map.empty)))))
       \<and> (\<exists>tags. apply_specialization lp can_vectorize_lang global_ind loopy_opts inner_ind knl
             for_testing (Some vecspec) can_vectorize True = Inr (Specialization tags))"
proof -
  have vs: "vector_split lp loopy_opts for_testing False gs split st = st" for gs st
    by (cases split) (auto simp: vector_split_def)
  have 1: "apply_specialization lp can_vectorize_lang global_ind loopy_opts inner_ind knl
             for_testing None can_vectorize get_specialization = Inl AssertionError"
    using assms(1) by (simp add: apply_specialization_def split: prod.splits)
  have 2: "apply_specialization lp can_vectorize_lang global_ind loopy_opts inner_ind knl
             for_testing (Some vecspec) can_vectorize False
           = Inr (Knl (fst (unr_ilp lp loopy_opts False i_tag
                        (width_fix lp loopy_opts False split
                          (vecspec (if can_vec_lang then tag_inames lp knl [(j_tag, ''g.0'')]
                                    else knl),
                           Map.empty)))))"
    using assms by (simp add: apply_specialization_def vs global_tag_def run_vecspec_def Let_def)
  have 3: "\<exists>tags. apply_specialization lp can_vectorize_lang global_ind loopy_opts inner_ind knl
             for_testing (Some vecspec) can_vectorize True = Inr (Specialization tags)"
    using assms by (simp add: apply_specialization_def vs Let_def)
  from 1 2 3 show ?thesis by blast
qed

text \<open>
  A deep vectorization of width 4 on the logging loopy: the kernel that
  cannot be vectorized gets the tag and the fix-up, the one that can gets the
  split first.
\<close>

theorem apply_specialization_non_vectorizable_witness:
  "ex_can_vectorize_lang (lang ex_opts) = Some True
   \<and> split_choice ''j'' ex_opts ''i'' = (Some (''i'', 4), ''i_outer'', ''j'')
   \<and> apply_specialization trace_lp ex_can_vectorize_lang ''j'' ex_opts ''i'' [] False
        None False False = Inl AssertionError
   \<and> apply_specialization trace_lp ex_can_vectorize_lang ''j'' ex_opts ''i'' [] False
        (Some ex_vecspec) False False
       = Inr (Knl [''tag_inames j g.0'', ''vecspec'', ''vecwith_fixer''])
   \<and> apply_specialization trace_lp ex_can_vectorize_lang ''j'' ex_opts ''i'' [] False
        (Some ex_vecspec) True False
       = Inr (Knl [''split_iname i l.0'', ''tag_inames j g.0'', ''vecspec'', ''vecwith_fixer''])"
proof -
  have nv: "\<not> False" by simp
  have l: "ex_can_vectorize_lang (lang ex_opts) = Some True"
    by (simp add: ex_can_vectorize_lang_def ex_opts_def)
  have c: "split_choice ''j'' ex_opts ''i'' = (Some (''i'', 4), ''i_outer'', ''j'')"
    by (simp add: split_choice_def ex_opts_def)
  have v: "apply_specialization trace_lp ex_can_vectorize_lang ''j'' ex_opts ''i'' [] False
        (Some ex_vecspec) True False
       = Inr (Knl [''split_iname i l.0'', ''tag_inames j g.0'', ''vecspec'', ''vecwith_fixer''])"
    by (simp add: apply_specialization_def split_choice_def vector_split_def global_tag_def
        run_vecspec_def width_fix_def unr_ilp_def ex_opts_def ex_can_vectorize_lang_def
        trace_lp_def ex_vecspec_def)
  from apply_specialization_non_vectorizable[where can_vectorize = False
      and can_vectorize_lang = ex_can_vectorize_lang and loopy_opts = ex_opts
      and lp = trace_lp and knl = "[]" and for_testing = False
      and get_specialization = False and vecspec = ex_vecspec, OF nv l c]
  have "apply_specialization trace_lp ex_can_vectorize_lang ''j'' ex_opts ''i'' [] False
          None False False = Inl AssertionError"
    and "apply_specialization trace_lp ex_can_vectorize_lang ''j'' ex_opts ''i'' [] False
          (Some ex_vecspec) False False
         = Inr (Knl [''tag_inames j g.0'', ''vecspec'', ''vecwith_fixer''])"
    by (simp_all add: unr_ilp_def width_fix_def ex_opts_def trace_lp_def ex_vecspec_def)
  with l c v show ?thesis by simp
qed

end
